theory Spec2Isabelle
  imports Complex_Main "HOL-Library.AList" "HOL-Library.Word"
begin

section \<open>Common vocabulary\<close>

text \<open>
  Python strings are modelled as \<^typ>\<open>string\<close>. Every character the source inspects
  (the separators \<^verbatim>\<open>/\<close> and \<^verbatim>\<open>:\<close>, the escape character, \<^verbatim>\<open>[\<close>, digits, \<^verbatim>\<open>;\<close>,
  \<^verbatim>\<open>m\<close>, carriage return) is ASCII, and no byte of a multi-byte UTF-8 sequence is
  an ASCII byte, so working on the UTF-8 bytes agrees with working on code points.

  A Python dictionary whose iteration order is observed is an association list in
  insertion order; \<^const>\<open>AList.update\<close> is the dictionary store (replace in place, or
  append a new key at the end).
\<close>

type_synonym environ = "string \<rightharpoonup> string"

type_synonym pydict = "(string \<times> string) list"

text \<open>
  The exceptions the source raises or dispatches on: the Kubernetes client's
  \<^verbatim>\<open>ApiException\<close> with its HTTP status, the \<^verbatim>\<open>RuntimeError\<close> the source raises
  itself (with its message), and any other \<^verbatim>\<open>Exception\<close>, carried by its \<^verbatim>\<open>repr\<close>.
\<close>

datatype exn =
    ApiException int
  | RuntimeError string
  | OtherException string

definition DEFAULT_NAMESPACE :: string where
  "DEFAULT_NAMESPACE = ''default''"

definition DEFAULT_DOCKER_PATH :: string where
  "DEFAULT_DOCKER_PATH =
     ''/root/.venv/bin:/root/.local/bin:/root/.cargo/bin:/usr/local/sbin:/usr/local/bin:/usr/sbin:/usr/bin:/sbin:/bin''"

definition DEFAULT_TIMEOUT :: int where
  "DEFAULT_TIMEOUT = 300"

text \<open>\<^verbatim>\<open>str(n)\<close> and \<^verbatim>\<open>f"{n}"\<close> for a Python \<^verbatim>\<open>int\<close>: decimal digits, with a leading minus sign.\<close>

definition digit_char :: "nat \<Rightarrow> char" where
  "digit_char d = ''0123456789'' ! d"

fun str_nat :: "nat \<Rightarrow> string" where
  "str_nat n = (if n < 10 then [digit_char n] else str_nat (n div 10) @ [digit_char (n mod 10)])"

definition str_int :: "int \<Rightarrow> string" where
  "str_int i = (if i < 0 then CHR ''-'' # str_nat (nat (- i)) else str_nat (nat i))"

section \<open>ProxyManager\<close>

record ProxyManager =
  disable_proxy :: bool
  original_proxy_settings :: pydict
  proxy_disabled :: bool

definition ProxyManager_init :: "bool \<Rightarrow> ProxyManager" where
  "ProxyManager_init disable =
     \<lparr>disable_proxy = disable, original_proxy_settings = [], proxy_disabled = False\<rparr>"

definition proxy_vars :: "string list" where
  "proxy_vars = [''http_proxy'', ''https_proxy'', ''HTTP_PROXY'', ''HTTPS_PROXY'',
                 ''ftp_proxy'', ''FTP_PROXY'', ''no_proxy'', ''NO_PROXY'']"

text \<open>One iteration of the loop of \<^verbatim>\<open>_disable_proxy\<close>: a variable that is set is saved and deleted.\<close>

definition disable_step :: "string \<Rightarrow> pydict \<times> environ \<Rightarrow> pydict \<times> environ" where
  "disable_step var s =
     (case snd s var of
        Some v \<Rightarrow> (AList.update var v (fst s), (snd s)(var := None))
      | None \<Rightarrow> s)"

definition disable_proxy_impl :: "ProxyManager \<Rightarrow> environ \<Rightarrow> ProxyManager \<times> environ" where
  "disable_proxy_impl pm env =
     (let s = fold disable_step proxy_vars (original_proxy_settings pm, env)
      in (pm\<lparr>original_proxy_settings := fst s, proxy_disabled := True\<rparr>, snd s))"

definition restore_proxy_impl :: "ProxyManager \<Rightarrow> environ \<Rightarrow> ProxyManager \<times> environ" where
  "restore_proxy_impl pm env =
     (if original_proxy_settings pm \<noteq> []
      then (pm\<lparr>original_proxy_settings := [], proxy_disabled := False\<rparr>,
            fold (\<lambda>(var, value) e. e(var \<mapsto> value)) (original_proxy_settings pm) env)
      else (pm\<lparr>proxy_disabled := False\<rparr>, env))"

definition ProxyManager_enter :: "ProxyManager \<Rightarrow> environ \<Rightarrow> ProxyManager \<times> environ" where
  "ProxyManager_enter pm env =
     (if disable_proxy pm then disable_proxy_impl pm env else (pm, env))"

definition ProxyManager_exit :: "ProxyManager \<Rightarrow> environ \<Rightarrow> ProxyManager \<times> environ" where
  "ProxyManager_exit pm env =
     (if proxy_disabled pm then restore_proxy_impl pm env else (pm, env))"

text \<open>
  \<^verbatim>\<open>with ProxyManager(disable_proxy=d): body\<close>. The body is any operation on the process
  environment that returns a value or raises. \<^verbatim>\<open>__exit__\<close> runs on both outcomes and
  returns \<^verbatim>\<open>None\<close>, so an exception of the body propagates after the restoration.
\<close>

definition with_ProxyManager ::
  "bool \<Rightarrow> (environ \<Rightarrow> (exn + 'a) \<times> environ) \<Rightarrow> environ \<Rightarrow> (exn + 'a) \<times> environ" where
  "with_ProxyManager d body env =
     (let (pm, e1) = ProxyManager_enter (ProxyManager_init d) env;
          (r, e2) = body e1;
          (pm', e3) = ProxyManager_exit pm e2
      in (r, e3))"

section \<open>Proxy isolation: what enter and exit do to the environment\<close>

lemma disable_step_None: "env a = None \<Longrightarrow> disable_step a (orig, env) = (orig, env)"
  by (simp add: disable_step_def)

lemma disable_step_Some:
  "env a = Some v \<Longrightarrow> disable_step a (orig, env) = (AList.update a v orig, env(a := None))"
  by (simp add: disable_step_def)

lemma fold_disable_step_env:
  "snd (fold disable_step vs (orig, env)) = (\<lambda>v. if v \<in> set vs then None else env v)"
proof (induction vs arbitrary: orig env)
  case Nil
  show ?case by simp
next
  case (Cons a vs)
  show ?case
    by (cases "env a") (auto simp: disable_step_None disable_step_Some Cons.IH fun_eq_iff)
qed

lemma fold_disable_step_orig:
  "distinct vs \<Longrightarrow>
   map_of (fst (fold disable_step vs (orig, env))) =
     (\<lambda>v. if v \<in> set vs \<and> env v \<noteq> None then env v else map_of orig v)"
proof (induction vs arbitrary: orig env)
  case Nil
  show ?case by simp
next
  case (Cons a vs)
  then have IH: "\<And>orig env. map_of (fst (fold disable_step vs (orig, env))) =
      (\<lambda>v. if v \<in> set vs \<and> env v \<noteq> None then env v else map_of orig v)"
    and a: "a \<notin> set vs"
    by simp_all
  show ?case
    using a
    by (cases "env a") (auto simp: disable_step_None disable_step_Some IH fun_eq_iff AList.update_conv')
qed

lemma fold_restore_env:
  "distinct (map fst al) \<Longrightarrow>
   fold (\<lambda>(var, value) e. e(var \<mapsto> value)) al env = env ++ map_of al"
proof (induction al arbitrary: env)
  case Nil
  show ?case by simp
next
  case (Cons p al)
  obtain k v where p: "p = (k, v)" by (cases p)
  from Cons.prems p have k: "k \<notin> fst ` set al" and d: "distinct (map fst al)"
    by auto
  from k have "k \<notin> dom (map_of al)"
    by (simp add: domIff map_of_eq_None_iff)
  then have "env(k \<mapsto> v) ++ map_of al = (env ++ map_of al)(k \<mapsto> v)"
    by (rule map_add_upd_left)
  moreover have "fold (\<lambda>(var, value) e. e(var \<mapsto> value)) (p # al) env
     = fold (\<lambda>(var, value) e. e(var \<mapsto> value)) al (env(k \<mapsto> v))"
    unfolding p by simp
  moreover have "env ++ map_of (p # al) = (env ++ map_of al)(k \<mapsto> v)"
    unfolding p by simp
  ultimately show ?case
    by (simp only: Cons.IH [OF d])
qed

lemma fold_disable_step_distinct:
  "distinct (map fst orig) \<Longrightarrow> distinct (map fst (fst (fold disable_step vs (orig, env))))"
proof (induction vs arbitrary: orig env)
  case Nil
  then show ?case by simp
next
  case (Cons a vs)
  then show ?case
    by (cases "env a") (auto simp: disable_step_None disable_step_Some AList.distinct_update)
qed

lemma distinct_proxy_vars: "distinct proxy_vars"
  by (simp add: proxy_vars_def)

lemma with_ProxyManager_env:
  "with_ProxyManager d body env =
     (let e1 = (if d then (\<lambda>v. if v \<in> set proxy_vars then None else env v) else env);
          e2 = snd (body e1)
      in (fst (body e1),
          if d then (\<lambda>v. if v \<in> set proxy_vars \<and> env v \<noteq> None then env v else e2 v) else e2))"
proof (cases d)
  case False
  then show ?thesis
    by (simp add: with_ProxyManager_def ProxyManager_enter_def ProxyManager_exit_def
        ProxyManager_init_def Let_def split: prod.splits)
next
  case True
  let ?s = "fold disable_step proxy_vars ([], env)"
  have dist: "distinct (map fst (fst ?s))"
    by (rule fold_disable_step_distinct) simp
  have orig: "map_of (fst ?s) = (\<lambda>v. if v \<in> set proxy_vars \<and> env v \<noteq> None then env v else None)"
    by (rule ext) (simp add: fold_disable_step_orig [OF distinct_proxy_vars])
  have cleared: "snd ?s = (\<lambda>v. if v \<in> set proxy_vars then None else env v)"
    by (rule fold_disable_step_env)
  have restore: "fold (\<lambda>(var, value) e. e(var \<mapsto> value)) (fst ?s) e2 =
      (\<lambda>v. if v \<in> set proxy_vars \<and> env v \<noteq> None then env v else e2 v)" for e2
    unfolding fold_restore_env [OF dist] orig
    by (auto simp: fun_eq_iff map_add_def split: option.splits)
  have empty: "fst ?s = [] \<Longrightarrow>
      e2 = (\<lambda>v. if v \<in> set proxy_vars \<and> env v \<noteq> None then env v else e2 v)" for e2
    using orig by (auto simp: fun_eq_iff split: if_splits dest: fun_cong)
  show ?thesis
    using True empty
    by (auto simp: with_ProxyManager_def ProxyManager_enter_def ProxyManager_exit_def
        ProxyManager_init_def disable_proxy_impl_def restore_proxy_impl_def Let_def
        cleared restore split: prod.splits cong: if_cong)
qed

lemma ProxyManager_enter_env:
  "snd (ProxyManager_enter (ProxyManager_init d) env) =
     (if d then (\<lambda>v. if v \<in> set proxy_vars then None else env v) else env)"
  by (simp add: ProxyManager_enter_def ProxyManager_init_def disable_proxy_impl_def
      Let_def fold_disable_step_env)

text \<open>
  Claim C4, as amended. For every initial environment and every wrapped operation,
  returning or raising. With the scope switched on, a proxy variable that was present
  before enter has after exit exactly the value it had, whatever the wrapped operation
  did to it. Every other variable, and with the scope switched off every variable, is
  after exit as the wrapped operation left it: the scope itself changes nothing else,
  and it does not remove a proxy variable that the wrapped operation created. So when
  the wrapped operation leaves the proxy variables as it found them, each of them is
  after exit in the state it had before enter, present with its value or absent. The
  wrapped operation runs with the proxy variables removed, and its outcome, an exception
  included, is passed on unchanged.
\<close>

theorem proxy_scope_restores_environment:
  "(\<forall>v. d \<and> v \<in> set proxy_vars \<and> env v \<noteq> None \<longrightarrow>
        snd (with_ProxyManager d body env) v = env v)
 \<and> (\<forall>v. \<not> (d \<and> v \<in> set proxy_vars \<and> env v \<noteq> None) \<longrightarrow>
        snd (with_ProxyManager d body env) v =
        snd (body (snd (ProxyManager_enter (ProxyManager_init d) env))) v)
 \<and> ((\<forall>v \<in> set proxy_vars.
        snd (body (snd (ProxyManager_enter (ProxyManager_init d) env))) v =
        snd (ProxyManager_enter (ProxyManager_init d) env) v) \<longrightarrow>
      (\<forall>v \<in> set proxy_vars. snd (with_ProxyManager d body env) v = env v))
 \<and> snd (ProxyManager_enter (ProxyManager_init d) env) =
      (if d then (\<lambda>v. if v \<in> set proxy_vars then None else env v) else env)
 \<and> fst (with_ProxyManager d body env) =
      fst (body (snd (ProxyManager_enter (ProxyManager_init d) env)))"
  by (auto simp: with_ProxyManager_env ProxyManager_enter_env Let_def)

theorem proxy_scope_restores_environment_witness:
  "snd (with_ProxyManager True
        (\<lambda>e. (Inl (OtherException ''boom'') :: exn + unit,
              e(''HOME'' \<mapsto> ''/tmp'', ''HTTP_PROXY'' \<mapsto> ''http://other:8080'')))
        [''HTTP_PROXY'' \<mapsto> ''http://proxy:3128'']) ''HTTP_PROXY'' = Some ''http://proxy:3128''
   \<and> snd (with_ProxyManager True
        (\<lambda>e. (Inl (OtherException ''boom'') :: exn + unit,
              e(''HOME'' \<mapsto> ''/tmp'', ''HTTP_PROXY'' \<mapsto> ''http://other:8080'')))
        [''HTTP_PROXY'' \<mapsto> ''http://proxy:3128'']) ''no_proxy'' = None
   \<and> snd (with_ProxyManager True
        (\<lambda>e. (Inl (OtherException ''boom'') :: exn + unit,
              e(''HOME'' \<mapsto> ''/tmp'', ''HTTP_PROXY'' \<mapsto> ''http://other:8080'')))
        [''HTTP_PROXY'' \<mapsto> ''http://proxy:3128'']) ''HOME'' = Some ''/tmp''"
proof -
  let ?body = "\<lambda>e::environ. (Inl (OtherException ''boom'') :: exn + unit,
      e(''HOME'' \<mapsto> ''/tmp'', ''HTTP_PROXY'' \<mapsto> ''http://other:8080''))"
  let ?env = "[''HTTP_PROXY'' \<mapsto> ''http://proxy:3128'']"
  have m: "''HTTP_PROXY'' \<in> set proxy_vars" "''no_proxy'' \<in> set proxy_vars"
    "''HOME'' \<notin> set proxy_vars"
    by (simp_all add: proxy_vars_def)
  note t = proxy_scope_restores_environment [of True ?env ?body]
  from t have present: "True \<and> ''HTTP_PROXY'' \<in> set proxy_vars \<and> ?env ''HTTP_PROXY'' \<noteq> None
      \<longrightarrow> snd (with_ProxyManager True ?body ?env) ''HTTP_PROXY'' = ?env ''HTTP_PROXY''"
    by blast
  from t have other: "\<And>v. \<not> (True \<and> v \<in> set proxy_vars \<and> ?env v \<noteq> None) \<Longrightarrow>
      snd (with_ProxyManager True ?body ?env) v =
      snd (?body (snd (ProxyManager_enter (ProxyManager_init True) ?env))) v"
    by blast
  from t have entered: "snd (ProxyManager_enter (ProxyManager_init True) ?env) =
      (\<lambda>v. if v \<in> set proxy_vars then None else ?env v)"
    by simp
  from present m have 1: "snd (with_ProxyManager True ?body ?env) ''HTTP_PROXY''
      = Some ''http://proxy:3128''"
    by simp
  from other [of "''no_proxy''"] m have 2: "snd (with_ProxyManager True ?body ?env) ''no_proxy'' = None"
    by (simp add: entered)
  from other [of "''HOME''"] m have 3: "snd (with_ProxyManager True ?body ?env) ''HOME'' = Some ''/tmp''"
    by simp
  from 1 2 3 show ?thesis by blast
qed

text \<open>
  The claim as stated, for every wrapped operation, fails for an operation that itself
  sets a proxy variable that was absent: exit writes back only what enter saved, so the
  variable exists afterwards although it did not exist before enter.
\<close>

theorem proxy_scope_counterexample:
  "Map.empty ''HTTP_PROXY'' = (None :: string option)
   \<and> snd (with_ProxyManager True
        (\<lambda>e. (Inr () :: exn + unit, e(''HTTP_PROXY'' \<mapsto> ''http://proxy:3128'')))
        Map.empty) ''HTTP_PROXY'' = Some ''http://proxy:3128''"
  by (simp add: with_ProxyManager_env Let_def)

section \<open>ContainerUtils: the identity generator\<close>

text \<open>
  \<^verbatim>\<open>hashlib.sha256\<close> is a library function: it is a parameter \<open>sha256\<close> giving the
  256-bit digest of a byte string. \<^verbatim>\<open>hexdigest()\<close> writes the digest as 64 lower-case
  hexadecimal digits, most significant first.
\<close>

definition hex_char :: "nat \<Rightarrow> char" where
  "hex_char d = ''0123456789abcdef'' ! d"

definition hexdigest :: "256 word \<Rightarrow> string" where
  "hexdigest w = map (\<lambda>i. hex_char (unat (drop_bit (4 * (63 - i)) w) mod 16)) [0 ..< 64]"

text \<open>\<^verbatim>\<open>s.replace(old, new)\<close> for one-character \<open>old\<close> and \<open>new\<close>.\<close>

definition replace_char :: "char \<Rightarrow> char \<Rightarrow> string \<Rightarrow> string" where
  "replace_char old new s = map (\<lambda>c. if c = old then new else c) s"

text \<open>
  \<^verbatim>\<open>get_container_name\<close> reads the process id and the wall clock; both readings are
  arguments here: \<open>process_id\<close> is \<^verbatim>\<open>os.getpid()\<close> and \<open>current_time\<close> is
  \<^verbatim>\<open>str(datetime.datetime.now())\<close>.
\<close>

definition get_container_name :: "(string \<Rightarrow> 256 word) \<Rightarrow> nat \<Rightarrow> string \<Rightarrow> string \<Rightarrow> string" where
  "get_container_name sha256 process_id current_time image_name =
     (let unique_string = current_time @ str_nat process_id;
          hash_object = sha256 unique_string;
          image_name_sanitized = replace_char CHR '':'' CHR ''-'' (replace_char CHR ''/'' CHR ''-'' image_name)
      in image_name_sanitized @ ''-'' @ take 10 (hexdigest hash_object))"

section \<open>Command results\<close>

text \<open>
  \<^verbatim>\<open>re.sub(r"\x1b\[[0-9;]*m|\r", "", output)\<close>. At each position the first alternative
  is tried first: the escape character, \<^verbatim>\<open>[\<close>, the longest run of digits and
  semicolons, then \<^verbatim>\<open>m\<close> (a shorter run cannot be followed by \<^verbatim>\<open>m\<close>, so
  backtracking never finds another match). Then the carriage return. Otherwise the
  character is kept and the scan moves on by one.
\<close>

definition is_sgr_param :: "char \<Rightarrow> bool" where
  "is_sgr_param c = (c \<in> set ''0123456789;'')"

definition match_sgr :: "string \<Rightarrow> string option" where
  "match_sgr s =
     (case s of
        e # b # t \<Rightarrow>
          (if e = CHR 0x1B \<and> b = CHR ''[''
           then (case dropWhile is_sgr_param t of
                   m # rest \<Rightarrow> if m = CHR ''m'' then Some rest else None
                 | [] \<Rightarrow> None)
           else None)
      | _ \<Rightarrow> None)"

lemma match_sgr_shorter: "match_sgr s = Some rest \<Longrightarrow> length rest < length s"
proof -
  assume m: "match_sgr s = Some rest"
  then obtain e b t where s: "s = e # b # t"
    by (auto simp: match_sgr_def split: list.splits)
  from m s obtain c where "dropWhile is_sgr_param t = c # rest"
    by (auto simp: match_sgr_def split: list.splits if_splits)
  then have "length rest < length (dropWhile is_sgr_param t)"
    by simp
  also have "\<dots> \<le> length t"
    by (rule length_dropWhile_le)
  finally show ?thesis
    using s by simp
qed

function strip_ansi :: "string \<Rightarrow> string" where
  "strip_ansi [] = []"
| "strip_ansi (c # cs) =
     (case match_sgr (c # cs) of
        Some rest \<Rightarrow> strip_ansi rest
      | None \<Rightarrow> if c = CHR 0x0D then strip_ansi cs else c # strip_ansi cs)"
  by pat_completeness auto
termination
  by (relation "measure length") (auto dest: match_sgr_shorter)

text \<open>
  An exception as the \<^verbatim>\<open>except\<close> clauses see it: whether it is an instance of
  \<^verbatim>\<open>concurrent.futures.TimeoutError\<close>, and its \<^verbatim>\<open>repr\<close>. From Python 3.11 on that class
  is the builtin \<^verbatim>\<open>TimeoutError\<close> (which \<^verbatim>\<open>socket.timeout\<close> is too), so the exec itself
  can raise an instance of it. Only instances of \<^verbatim>\<open>Exception\<close> are meant.
\<close>

datatype py_exception = PyException (is_futures_timeout: bool) (exception_repr: string)

text \<open>
  The call submitted to the one-worker executor, as the bounded wait finds it: finished
  with a result, finished with an exception, or still running when the wait expires;
  a call that is still running ends later or never ends.
\<close>

datatype 'r invocation = Returns 'r | Raises py_exception | EndsLate | NeverEnds

text \<open>\<^verbatim>\<open>future.result(timeout=timeout + 5)\<close>: the result, the call's exception, or the wait's own.\<close>

definition future_result :: "'r invocation \<Rightarrow> py_exception + 'r" where
  "future_result submitted =
     (case submitted of
        Returns r \<Rightarrow> Inr r
      | Raises e \<Rightarrow> Inl e
      | EndsLate \<Rightarrow> Inl (PyException True ''TimeoutError()'')
      | NeverEnds \<Rightarrow> Inl (PyException True ''TimeoutError()''))"

text \<open>
  Leaving \<^verbatim>\<open>with concurrent.futures.ThreadPoolExecutor(...)\<close>, normally or by an
  exception, calls \<^verbatim>\<open>shutdown(wait=True)\<close>, which joins the worker: it returns when the
  submitted call has ended, and does not return when the call never ends.
\<close>

definition executor_exit_returns :: "'r invocation \<Rightarrow> bool" where
  "executor_exit_returns submitted = (case submitted of NeverEnds \<Rightarrow> False | _ \<Rightarrow> True)"

definition timed_out_message :: "int \<Rightarrow> string" where
  "timed_out_message timeout = ''Command timed out (>'' @ str_int timeout @ ''s)''"

text \<open>
  \<^verbatim>\<open>DockerManager.execute_command\<close>. The engine's exec primitive is the parameter
  \<open>exec_run\<close>: it receives the argument vector, the working directory, the environment
  and the bound of the wait, and tells how the call stands when the wait ends; a result
  is the decoded output with the exit code. The value is \<open>None\<close> when
  \<^verbatim>\<open>execute_command\<close> does not return.
\<close>

definition docker_execute_command ::
  "(string list \<Rightarrow> string option \<Rightarrow> pydict \<Rightarrow> int \<Rightarrow> (string \<times> int) invocation)
     \<Rightarrow> string \<Rightarrow> int \<Rightarrow> string option \<Rightarrow> (string \<times> string) option" where
  "docker_execute_command exec_run command timeout workdir =
     (let full_command = command;
          submitted = exec_run [''/bin/sh'', ''-c'', full_command] workdir
                        [(''PATH'', DEFAULT_DOCKER_PATH)] (timeout + 5)
      in if \<not> executor_exit_returns submitted then None
         else Some
           (case future_result submitted of
              Inr (output, exit_code) \<Rightarrow>
                if exit_code = 124 then (timed_out_message timeout, ''-1'')
                else if exit_code \<noteq> 0 then (output, ''Error: Exit code '' @ str_int exit_code)
                else (strip_ansi output, str_int exit_code)
            | Inl e \<Rightarrow>
                if is_futures_timeout e then (timed_out_message timeout, ''-1'')
                else (''Error: '' @ exception_repr e, ''-1'')))"

text \<open>
  \<^verbatim>\<open>KubernetesManager.execute_command\<close>. The inner \<^verbatim>\<open>execute()\<close> is the parameter
  \<open>execute\<close>; a result is the joined chunks with \<^verbatim>\<open>resp.returncode\<close>, which is \<^verbatim>\<open>None\<close>
  when the stream gave no exit status.
\<close>

definition k8s_execute_command ::
  "(string \<Rightarrow> string list \<Rightarrow> int \<Rightarrow> (string \<times> int option) invocation)
     \<Rightarrow> string \<Rightarrow> string \<Rightarrow> int \<Rightarrow> (string \<times> string) option" where
  "k8s_execute_command execute pod_name command timeout =
     (let full_command = [''/bin/sh'', ''-c'', command];
          submitted = execute pod_name full_command (timeout + 5)
      in if \<not> executor_exit_returns submitted then None
         else Some
           (case future_result submitted of
              Inr (output, None) \<Rightarrow> (''Exit code not found'', ''-1'')
            | Inr (output, Some exit_code) \<Rightarrow>
                if exit_code = 124 then (timed_out_message timeout, ''-1'')
                else if exit_code \<noteq> 0 then (output, ''Error: Exit code '' @ str_int exit_code)
                else (strip_ansi output, str_int exit_code)
            | Inl e \<Rightarrow>
                if is_futures_timeout e then (timed_out_message timeout, ''-1'')
                else (''Error: '' @ exception_repr e, ''-1'')))"

section \<open>The identity generator: format and distinctness\<close>

lemma length_hexdigest: "length (hexdigest w) = 64"
  by (simp add: hexdigest_def)

lemma hex_char_range: "d < 16 \<Longrightarrow> hex_char d \<in> set ''0123456789abcdef''"
  unfolding hex_char_def by (rule nth_mem) simp

lemma hexdigest_chars: "set (hexdigest w) \<subseteq> set ''0123456789abcdef''"
proof
  fix c assume "c \<in> set (hexdigest w)"
  then obtain i where "c = hex_char (unat (drop_bit (4 * (63 - i)) w) mod 16)"
    by (auto simp: hexdigest_def)
  then show "c \<in> set ''0123456789abcdef''"
    by (simp only: hex_char_range [of "unat (drop_bit (4 * (63 - i)) w) mod 16"] mod_less_divisor
        zero_less_numeral)
qed

lemma replace_char_absent: "old \<noteq> new \<Longrightarrow> old \<notin> set (replace_char old new s)"
  by (auto simp: replace_char_def)

lemma sanitized_image:
  "replace_char CHR '':'' CHR ''-'' (replace_char CHR ''/'' CHR ''-'' image_name) =
   map (\<lambda>c. if c = CHR ''/'' \<or> c = CHR '':'' then CHR ''-'' else c) image_name"
  by (simp add: replace_char_def)

text \<open>
  Claim C6, as amended. For every image string, process id and clock reading the name is
  the image with each \<^verbatim>\<open>/\<close> and \<^verbatim>\<open>:\<close> replaced by \<^verbatim>\<open>-\<close>, then \<^verbatim>\<open>-\<close>, then a suffix of
  exactly 10 lower-case hexadecimal digits: the first 10 digits of the SHA-256 digest of
  the clock reading followed by the process id. The name is a function of the image, the
  process id and the clock reading: two calls for the same image give different names
  exactly when their suffixes differ, and two calls of one process that read the same
  clock value give the same name.
\<close>

theorem get_container_name_format:
  "get_container_name sha256 process_id current_time image_name =
     map (\<lambda>c. if c = CHR ''/'' \<or> c = CHR '':'' then CHR ''-'' else c) image_name
     @ ''-'' @ take 10 (hexdigest (sha256 (current_time @ str_nat process_id)))
   \<and> length (take 10 (hexdigest (sha256 (current_time @ str_nat process_id)))) = 10
   \<and> set (take 10 (hexdigest (sha256 (current_time @ str_nat process_id))))
        \<subseteq> set ''0123456789abcdef''
   \<and> (get_container_name sha256 process_id current_time image_name
        \<noteq> get_container_name sha256 process_id' current_time' image_name
      \<longleftrightarrow> take 10 (hexdigest (sha256 (current_time @ str_nat process_id)))
        \<noteq> take 10 (hexdigest (sha256 (current_time' @ str_nat process_id'))))"
proof -
  have "set (take 10 (hexdigest (sha256 (current_time @ str_nat process_id))))
      \<subseteq> set (hexdigest (sha256 (current_time @ str_nat process_id)))"
    by (rule set_take_subset)
  then have "set (take 10 (hexdigest (sha256 (current_time @ str_nat process_id))))
      \<subseteq> set ''0123456789abcdef''"
    using hexdigest_chars by (rule subset_trans)
  then show ?thesis
    by (simp add: get_container_name_def sanitized_image length_hexdigest Let_def)
qed

theorem get_container_name_format_witness:
  "length (get_container_name (\<lambda>s. 0) 4242 ''2024-01-01 10:00:00.000001'' ''repo/myimg:latest'')
     = 28
   \<and> take 18 (get_container_name (\<lambda>s. 0) 4242 ''2024-01-01 10:00:00.000001'' ''repo/myimg:latest'')
     = ''repo-myimg-latest-''"
  using get_container_name_format [of "\<lambda>s. 0" 4242 "''2024-01-01 10:00:00.000001''"
      "''repo/myimg:latest''" 4242 "''2024-01-01 10:00:00.000001''"]
  by simp

text \<open>
  The claim as stated, that two calls in immediate succession always produce different
  names, fails: the second call can read the same wall-clock value as the first (a
  clock of coarse resolution, or one that is set back between the calls), and then the
  two names are equal, whatever the hash function is.
\<close>

theorem get_container_name_distinct_counterexample:
  "\<not> (\<forall>sha256 process_id first_reading second_reading image_name.
        get_container_name sha256 process_id first_reading image_name
          \<noteq> get_container_name sha256 process_id second_reading image_name)"
proof
  assume "\<forall>sha256 process_id first_reading second_reading image_name.
        get_container_name sha256 process_id first_reading image_name
          \<noteq> get_container_name sha256 process_id second_reading image_name"
  then have "get_container_name (\<lambda>s. 0) 4242 ''2024-01-01 10:00:00.000001'' ''repo/myimg:latest''
      \<noteq> get_container_name (\<lambda>s. 0) 4242 ''2024-01-01 10:00:00.000001'' ''repo/myimg:latest''"
    by blast
  then show False by simp
qed

section \<open>Command results: the wire contract\<close>

lemma strip_ansi_no_cr: "CHR 0x0D \<notin> set (strip_ansi s)"
  by (induction s rule: strip_ansi.induct) (auto split: option.splits)



text \<open>
  The first alternative of the pattern matches at the head of a string exactly when the
  string is the escape character, \<^verbatim>\<open>[\<close>, digits and semicolons, \<^verbatim>\<open>m\<close>, and a rest.
\<close>

lemma match_sgr_iff:
  "match_sgr s = Some rest \<longleftrightarrow>
   (\<exists>ps. s = CHR 0x1B # CHR ''['' # ps @ CHR ''m'' # rest \<and> (\<forall>c \<in> set ps. c \<in> set ''0123456789;''))"
proof
  assume m: "match_sgr s = Some rest"
  then obtain t where s: "s = CHR 0x1B # CHR ''['' # t"
    by (auto simp: match_sgr_def split: list.splits if_splits)
  from m s have d: "dropWhile is_sgr_param t = CHR ''m'' # rest"
    by (auto simp: match_sgr_def split: list.splits if_splits)
  have "t = takeWhile is_sgr_param t @ dropWhile is_sgr_param t"
    by simp
  with d have "t = takeWhile is_sgr_param t @ CHR ''m'' # rest"
    by simp
  moreover have "\<forall>c \<in> set (takeWhile is_sgr_param t). c \<in> set ''0123456789;''"
    using set_takeWhileD [of _ is_sgr_param t] by (auto simp: is_sgr_param_def)
  ultimately show "\<exists>ps. s = CHR 0x1B # CHR ''['' # ps @ CHR ''m'' # rest
      \<and> (\<forall>c \<in> set ps. c \<in> set ''0123456789;'')"
    using s by blast
next
  assume "\<exists>ps. s = CHR 0x1B # CHR ''['' # ps @ CHR ''m'' # rest
      \<and> (\<forall>c \<in> set ps. c \<in> set ''0123456789;'')"
  then obtain ps where s: "s = CHR 0x1B # CHR ''['' # ps @ CHR ''m'' # rest"
    and ps: "\<forall>c \<in> set ps. is_sgr_param c"
    by (auto simp: is_sgr_param_def)
  have "\<not> is_sgr_param CHR ''m''"
    by (simp add: is_sgr_param_def)
  with ps have "dropWhile is_sgr_param (ps @ CHR ''m'' # rest) = CHR ''m'' # rest"
    by (simp add: dropWhile_append3)
  then show "match_sgr s = Some rest"
    by (simp add: match_sgr_def s)
qed









text \<open>
  Left out of the amended claim: when the bounded wait expires on a call that never
  ends, leaving the \<^verbatim>\<open>with\<close> block waits for that call, and \<^verbatim>\<open>execute_command\<close> does not
  return.
\<close>

lemma execute_command_waits_for_the_call:
  "exec_run [''/bin/sh'', ''-c'', command] workdir [(''PATH'', DEFAULT_DOCKER_PATH)] (timeout + 5)
      = NeverEnds \<Longrightarrow>
   docker_execute_command exec_run command timeout workdir = None"
  "execute pod_name [''/bin/sh'', ''-c'', command] (timeout + 5) = NeverEnds \<Longrightarrow>
   k8s_execute_command execute pod_name command timeout = None"
  by (simp_all add: docker_execute_command_def k8s_execute_command_def executor_exit_returns_def)

text \<open>The four equations of the pass determine it: they have no other solution.\<close>

lemma strip_ansi_unique:
  assumes "f [] = []"
    and "\<And>ps rest. \<forall>c \<in> set ps. c \<in> set ''0123456789;'' \<Longrightarrow>
          f (CHR 0x1B # CHR ''['' # ps @ CHR ''m'' # rest) = f rest"
    and "\<And>rest. f (CHR 0x0D # rest) = f rest"
    and "\<And>c rest. c \<noteq> CHR 0x0D \<Longrightarrow>
          \<not> (\<exists>ps tail. c # rest = CHR 0x1B # CHR ''['' # ps @ CHR ''m'' # tail
              \<and> (\<forall>x \<in> set ps. x \<in> set ''0123456789;'')) \<Longrightarrow>
          f (c # rest) = c # f rest"
  shows "f s = strip_ansi s"
proof (induction s rule: strip_ansi.induct)
  case 1
  show ?case by (simp add: assms(1))
next
  case (2 c cs)
  show ?case
  proof (cases "match_sgr (c # cs)")
    case (Some rest)
    then obtain ps where "c # cs = CHR 0x1B # CHR ''['' # ps @ CHR ''m'' # rest"
      and "\<forall>x \<in> set ps. x \<in> set ''0123456789;''"
      unfolding match_sgr_iff by blast
    with assms(2) [of ps rest] have "f (c # cs) = f rest"
      by simp
    with Some "2.IH" show ?thesis
      by simp
  next
    case None
    show ?thesis
    proof (cases "c = CHR 0x0D")
      case True
      with None "2.IH" assms(3) [of cs] show ?thesis
        by simp
    next
      case False
      have "\<not> (\<exists>ps tail. c # cs = CHR 0x1B # CHR ''['' # ps @ CHR ''m'' # tail
              \<and> (\<forall>x \<in> set ps. x \<in> set ''0123456789;''))"
        using None match_sgr_iff [of "c # cs"] by fastforce
      with assms(4) [OF False] have "f (c # cs) = c # f cs"
        by blast
      with None False "2.IH" show ?thesis
        by simp
    qed
  qed
qed

section \<open>Dictionaries of options\<close>

text \<open>\<^verbatim>\<open>d.update(other)\<close>: every item of \<open>other\<close> is stored into \<open>d\<close>, in order.\<close>

definition dict_update :: "(string \<times> 'v) list \<Rightarrow> (string \<times> 'v) list \<Rightarrow> (string \<times> 'v) list" where
  "dict_update d other = fold (\<lambda>(k, v). AList.update k v) other d"

section \<open>DockerManager over a simulated engine\<close>

text \<open>
  The container engine is an external service. It is simulated by the list of its
  containers, the log of the calls made to it, and an oracle of faults: the call number
  \<open>i\<close> (counted from 0) raises \<open>engine_faults i\<close> when that is not \<open>None\<close>, and is then
  without effect. \<open>name_filter\<close> is the engine's matching of the \<^verbatim>\<open>name\<close> filter of
  \<^verbatim>\<open>containers.list\<close>. A handle (\<^verbatim>\<open>Container\<close> object) is the container's record as
  the engine reported it when the handle was made.
\<close>

record Container =
  c_id :: nat
  c_name :: string
  c_image :: string
  c_command :: string
  c_environment :: pydict
  c_status :: string

datatype engine_call =
    ContainersList string
  | ContainerStart nat
  | ContainersRun string string string pydict
  | ContainerStop nat
  | ContainerRemove nat

record docker_engine =
  engine_containers :: "Container list"
  engine_calls :: "engine_call list"
  engine_faults :: "nat \<Rightarrow> exn option"
  name_filter :: "string \<Rightarrow> string \<Rightarrow> bool"

definition engine_request ::
  "engine_call \<Rightarrow> (docker_engine \<Rightarrow> (exn + 'a) \<times> docker_engine) \<Rightarrow> docker_engine
     \<Rightarrow> (exn + 'a) \<times> docker_engine" where
  "engine_request call serve eng =
     (let logged = eng\<lparr>engine_calls := engine_calls eng @ [call]\<rparr>
      in case engine_faults eng (length (engine_calls eng)) of
           Some e \<Rightarrow> (Inl e, logged)
         | None \<Rightarrow> serve logged)"

definition containers_list :: "string \<Rightarrow> docker_engine \<Rightarrow> (exn + Container list) \<times> docker_engine" where
  "containers_list name =
     engine_request (ContainersList name)
       (\<lambda>eng. (Inr (filter (\<lambda>c. name_filter eng name (c_name c)) (engine_containers eng)), eng))"

definition fresh_id :: "docker_engine \<Rightarrow> nat" where
  "fresh_id eng = Suc (fold max (map c_id (engine_containers eng)) 0)"

definition containers_run ::
  "string \<Rightarrow> string \<Rightarrow> string \<Rightarrow> pydict \<Rightarrow> docker_engine \<Rightarrow> (exn + Container) \<times> docker_engine" where
  "containers_run img command name env =
     engine_request (ContainersRun img command name env)
       (\<lambda>eng. if name \<in> c_name ` set (engine_containers eng)
              then (Inl (OtherException ''APIError(409 Conflict)''), eng)
              else (let c = \<lparr>c_id = fresh_id eng, c_name = name, c_image = img,
                              c_command = command, c_environment = env, c_status = ''running''\<rparr>
                    in (Inr c, eng\<lparr>engine_containers := engine_containers eng @ [c]\<rparr>)))"

definition container_start :: "Container \<Rightarrow> docker_engine \<Rightarrow> (exn + unit) \<times> docker_engine" where
  "container_start container =
     engine_request (ContainerStart (c_id container))
       (\<lambda>eng. if c_id container \<in> c_id ` set (engine_containers eng)
              then (Inr (), eng\<lparr>engine_containers :=
                      map (\<lambda>c. if c_id c = c_id container then c\<lparr>c_status := ''running''\<rparr> else c)
                        (engine_containers eng)\<rparr>)
              else (Inl (OtherException ''NotFound()''), eng))"

definition container_stop :: "Container \<Rightarrow> docker_engine \<Rightarrow> (exn + unit) \<times> docker_engine" where
  "container_stop container =
     engine_request (ContainerStop (c_id container))
       (\<lambda>eng. if c_id container \<in> c_id ` set (engine_containers eng)
              then (Inr (), eng\<lparr>engine_containers :=
                      map (\<lambda>c. if c_id c = c_id container then c\<lparr>c_status := ''exited''\<rparr> else c)
                        (engine_containers eng)\<rparr>)
              else (Inl (OtherException ''NotFound()''), eng))"

definition container_remove :: "Container \<Rightarrow> docker_engine \<Rightarrow> (exn + unit) \<times> docker_engine" where
  "container_remove container =
     engine_request (ContainerRemove (c_id container))
       (\<lambda>eng. if c_id container \<in> c_id ` set (engine_containers eng)
              then (Inr (), eng\<lparr>engine_containers :=
                      filter (\<lambda>c. c_id c \<noteq> c_id container) (engine_containers eng)\<rparr>)
              else (Inl (OtherException ''NotFound()''), eng))"

record DockerManager =
  client :: docker_engine
  containers :: "string \<rightharpoonup> Container"

text \<open>
  \<^verbatim>\<open>DockerManager.start_container\<close>, with the name already chosen (the caller's, or the
  generated one); \<open>img\<close> is the source's \<^verbatim>\<open>image\<close>. The \<^verbatim>\<open>except\<close> clause prints and re-raises, so an exception leaves
  with the manager as it is at that point. Extra keyword arguments are passed through
  to the engine and are left out.
\<close>

definition start_container ::
  "string \<Rightarrow> string \<Rightarrow> string \<Rightarrow> pydict option \<Rightarrow> DockerManager
     \<Rightarrow> (exn + Container) \<times> DockerManager" where
  "start_container img command name environment self =
     (case containers_list name (client self) of
        (Inl e, eng) \<Rightarrow> (Inl e, self\<lparr>client := eng\<rparr>)
      | (Inr found, eng) \<Rightarrow>
          (case found of
             container # _ \<Rightarrow>
               if c_status container \<noteq> ''running''
               then (case container_start container eng of
                       (Inl e, eng') \<Rightarrow> (Inl e, self\<lparr>client := eng'\<rparr>)
                     | (Inr _, eng') \<Rightarrow>
                         (Inr container,
                          self\<lparr>client := eng', containers := (containers self)(name \<mapsto> container)\<rparr>))
               else (Inr container,
                     self\<lparr>client := eng, containers := (containers self)(name \<mapsto> container)\<rparr>)
           | [] \<Rightarrow>
               (let env = [(''PATH'', DEFAULT_DOCKER_PATH)];
                    env = (case environment of
                             Some user \<Rightarrow> if user \<noteq> [] then dict_update env user else env
                           | None \<Rightarrow> env)
                in case containers_run img command name env eng of
                     (Inl e, eng') \<Rightarrow> (Inl e, self\<lparr>client := eng'\<rparr>)
                   | (Inr container, eng') \<Rightarrow>
                       (Inr container,
                        self\<lparr>client := eng', containers := (containers self)(name \<mapsto> container)\<rparr>))))"

text \<open>
  \<^verbatim>\<open>DockerManager.stop_container\<close>. It returns nothing; the \<^verbatim>\<open>except\<close> clause prints and
  swallows, so a failing stop or remove leaves the name registered.
\<close>

definition stop_container :: "string \<Rightarrow> DockerManager \<Rightarrow> DockerManager" where
  "stop_container container_name self =
     (case containers self container_name of
        Some container \<Rightarrow>
          (case container_stop container (client self) of
             (Inl e, eng) \<Rightarrow> self\<lparr>client := eng\<rparr>
           | (Inr _, eng) \<Rightarrow>
               (case container_remove container eng of
                  (Inl e, eng') \<Rightarrow> self\<lparr>client := eng'\<rparr>
                | (Inr _, eng') \<Rightarrow>
                    self\<lparr>client := eng', containers := (containers self)(container_name := None)\<rparr>))
      | None \<Rightarrow> self)"

fun is_run :: "engine_call \<Rightarrow> bool" where
  "is_run (ContainersRun img command name env) = True"
| "is_run _ = False"

text \<open>The calls a manager operation added to the engine's log.\<close>

definition new_engine_calls :: "DockerManager \<Rightarrow> DockerManager \<Rightarrow> engine_call list" where
  "new_engine_calls before after =
     drop (length (engine_calls (client before))) (engine_calls (client after))"

section \<open>KubernetesManager over a simulated API server\<close>

record toleration =
  tol_effect :: string
  tol_key :: string
  tol_operator :: string
  tol_value :: string

record container_spec =
  cs_name :: string
  cs_image :: string
  cs_command :: "string list"
  cs_args :: "string list"
  cs_stdin :: bool
  cs_tty :: bool
  cs_env :: pydict
  cs_resources :: "(string \<times> pydict) list"

record pod_manifest =
  apiVersion :: string
  kind :: string
  metadata_name :: string
  restartPolicy :: string
  spec_containers :: "container_spec list"
  tolerations :: "toleration list"
  nodeSelector :: "pydict option"

text \<open>
  \<^verbatim>\<open>create_pod_spec\<close>. \<open>cs_env\<close> is the list of \<^verbatim>\<open>{"name": k, "value": str(v)}\<close> entries
  in the order of the merged dictionary; the values are strings, on which \<^verbatim>\<open>str\<close> is
  the identity. The command is a string, so \<^verbatim>\<open>args\<close> is the one-element list.
\<close>

definition create_pod_spec ::
  "string \<Rightarrow> string \<Rightarrow> string \<Rightarrow> pydict option \<Rightarrow> (string \<times> pydict) list option \<Rightarrow> pydict option
     \<Rightarrow> pod_manifest" where
  "create_pod_spec name img command environment resources node_selector =
     (let env_vars = [(''PATH'', DEFAULT_DOCKER_PATH)];
          env_vars = (case environment of
                        Some user \<Rightarrow> if user \<noteq> [] then dict_update env_vars user else env_vars
                      | None \<Rightarrow> env_vars);
          env_spec = map (\<lambda>(k, v). (k, v)) env_vars;
          default_resources = [(''requests'', [(''cpu'', ''1''), (''memory'', ''1Gi'')])];
          default_resources = (case resources of
                                 Some r \<Rightarrow> if r \<noteq> [] then dict_update default_resources r
                                           else default_resources
                               | None \<Rightarrow> default_resources)
      in \<lparr>apiVersion = ''v1'', kind = ''Pod'', metadata_name = name, restartPolicy = ''Never'',
          spec_containers =
            [\<lparr>cs_name = name, cs_image = img, cs_command = [''/bin/sh'', ''-c''],
              cs_args = [command], cs_stdin = True, cs_tty = True, cs_env = env_spec,
              cs_resources = default_resources\<rparr>],
          tolerations =
            [\<lparr>tol_effect = ''NoSchedule'', tol_key = ''rl-training-only'',
              tol_operator = ''Equal'', tol_value = ''true''\<rparr>],
          nodeSelector = (case node_selector of
                            Some sel \<Rightarrow> if sel \<noteq> [] then Some sel else None
                          | None \<Rightarrow> None)\<rparr>)"

text \<open>
  The API server is an external service. It is simulated by the pods of the namespace,
  the log of the requests with what each raised, and an oracle of faults: request number
  \<open>i\<close> (counted from 0) raises \<open>api_faults i\<close> when that is not \<open>None\<close>, and is then
  without effect. Without a fault, reading or deleting an absent pod raises status 404
  and creating a present one raises status 409. A pod handle (\<^verbatim>\<open>V1Pod\<close>) is its manifest.
\<close>

datatype api_call =
    ReadPod string string "exn option"
  | CreatePod string pod_manifest "exn option"
  | DeletePod string string int "exn option"

record k8s_api =
  api_pods :: "string \<rightharpoonup> pod_manifest"
  api_calls :: "api_call list"
  api_faults :: "nat \<Rightarrow> exn option"

definition api_request ::
  "(exn option \<Rightarrow> api_call) \<Rightarrow> (k8s_api \<Rightarrow> (exn + 'a) \<times> k8s_api) \<Rightarrow> k8s_api
     \<Rightarrow> (exn + 'a) \<times> k8s_api" where
  "api_request call serve api =
     (let (r, api') =
            (case api_faults api (length (api_calls api)) of
               Some e \<Rightarrow> (Inl e, api)
             | None \<Rightarrow> serve api)
      in (r, api'\<lparr>api_calls := api_calls api @
                  [call (case r of Inl e \<Rightarrow> Some e | Inr _ \<Rightarrow> None)]\<rparr>))"

definition read_namespaced_pod :: "string \<Rightarrow> string \<Rightarrow> k8s_api \<Rightarrow> (exn + pod_manifest) \<times> k8s_api" where
  "read_namespaced_pod name ns =
     api_request (ReadPod name ns)
       (\<lambda>api. case api_pods api name of
                Some pod \<Rightarrow> (Inr pod, api)
              | None \<Rightarrow> (Inl (ApiException 404), api))"

definition create_namespaced_pod ::
  "string \<Rightarrow> pod_manifest \<Rightarrow> k8s_api \<Rightarrow> (exn + pod_manifest) \<times> k8s_api" where
  "create_namespaced_pod ns body =
     api_request (CreatePod ns body)
       (\<lambda>api. case api_pods api (metadata_name body) of
                Some pod \<Rightarrow> (Inl (ApiException 409), api)
              | None \<Rightarrow> (Inr body, api\<lparr>api_pods := (api_pods api)(metadata_name body \<mapsto> body)\<rparr>))"

definition delete_namespaced_pod ::
  "string \<Rightarrow> string \<Rightarrow> int \<Rightarrow> k8s_api \<Rightarrow> (exn + unit) \<times> k8s_api" where
  "delete_namespaced_pod name ns grace_period_seconds =
     api_request (DeletePod name ns grace_period_seconds)
       (\<lambda>api. case api_pods api name of
                Some pod \<Rightarrow> (Inr (), api\<lparr>api_pods := (api_pods api)(name := None)\<rparr>)
              | None \<Rightarrow> (Inl (ApiException 404), api))"

text \<open>
  The manager, with the log of the \<^verbatim>\<open>time.sleep\<close> calls it made. The proxy scope around
  each method acts on the process environment only, which no operation here reads; it is
  the subject of the section on \<^const>\<open>with_ProxyManager\<close>.
\<close>

record KubernetesManager =
  namespace :: string
  kubeconfig_path :: "string option"
  km_disable_proxy :: bool
  pods :: "string \<rightharpoonup> pod_manifest"
  api_client :: k8s_api
  slept :: "int list"

text \<open>
  What the watch yields, in order: an event with the pod's phase (\<^verbatim>\<open>None\<close> when the
  status has none) together with what \<^verbatim>\<open>time.time()\<close> reads when the loop body checks
  the deadline, or an exception raised by the stream. The end of the list is the end of
  the stream: the generator returns when the server closes the watch, which it does
  after \<^verbatim>\<open>timeout_seconds\<close>.
\<close>

datatype stream_item = Event "string option" real | StreamError exn

definition quoted :: "string \<Rightarrow> string" where
  "quoted s = [CHR 0x27] @ s @ [CHR 0x27]"

text \<open>
  The loop of \<^verbatim>\<open>_wait_for_pod_running\<close>. The second component tells whether \<^verbatim>\<open>w.stop()\<close>
  was called.
\<close>

fun wait_loop :: "string \<Rightarrow> int \<Rightarrow> real \<Rightarrow> stream_item list \<Rightarrow> (exn + unit) \<times> bool" where
  "wait_loop pod_name timeout start_time [] = (Inr (), False)"
| "wait_loop pod_name timeout start_time (StreamError e # events) = (Inl e, False)"
| "wait_loop pod_name timeout start_time (Event phase now # events) =
     (if now - start_time > of_int timeout
      then (Inl (RuntimeError (''Pod '' @ quoted pod_name @ '' timed out after ''
                  @ str_int timeout @ '' seconds'')), True)
      else if phase = Some ''Running'' then (Inr (), True)
      else if phase \<in> Some ` set [''Failed'', ''Succeeded'', ''Unknown'']
      then (Inl (RuntimeError (''Pod '' @ quoted pod_name @ '' entered terminal phase ''
                  @ quoted (the phase))), True)
      else wait_loop pod_name timeout start_time events)"

definition wait_for_pod_running ::
  "string \<Rightarrow> int \<Rightarrow> real \<Rightarrow> stream_item list \<Rightarrow> (exn + unit) \<times> bool" where
  "wait_for_pod_running pod_name timeout start_time events =
     wait_loop pod_name timeout start_time events"

text \<open>
  The retry loop of \<^verbatim>\<open>start_pod\<close> over the remaining values of
  \<^verbatim>\<open>range(1, max_retries + 1)\<close>. It leaves by \<^verbatim>\<open>break\<close> with the pod, by re-raising, or
  by running out of attempts, which is where the \<^verbatim>\<open>else\<close> of the \<^verbatim>\<open>for\<close> runs.
\<close>

datatype loop_exit = Break pod_manifest | Reraise exn | Exhausted

fun create_loop ::
  "int \<Rightarrow> pod_manifest \<Rightarrow> int list \<Rightarrow> int \<Rightarrow> KubernetesManager \<Rightarrow> loop_exit \<times> KubernetesManager" where
  "create_loop max_retries pod_body [] backoff self = (Exhausted, self)"
| "create_loop max_retries pod_body (attempt # rest) backoff self =
     (case create_namespaced_pod (namespace self) pod_body (api_client self) of
        (Inr pod, api) \<Rightarrow> (Break pod, self\<lparr>api_client := api\<rparr>)
      | (Inl e, api) \<Rightarrow>
          (case e of
             ApiException status \<Rightarrow>
               if status \<in> set [409, 429, 500, 503] \<and> attempt < max_retries
               then create_loop max_retries pod_body rest (min (backoff * 2) 60)
                      (self\<lparr>api_client := api, slept := slept self @ [backoff]\<rparr>)
               else (Reraise e, self\<lparr>api_client := api\<rparr>)
           | _ \<Rightarrow> (Reraise e, self\<lparr>api_client := api\<rparr>)))"

text \<open>
  \<^verbatim>\<open>start_pod\<close>. \<open>start_time\<close> and \<open>events\<close> are what the readiness wait reads from
  the clock and the watch, should it be reached.
\<close>

definition start_pod ::
  "string \<Rightarrow> string \<Rightarrow> string \<Rightarrow> pydict option \<Rightarrow> (string \<times> pydict) list option \<Rightarrow> pydict option
     \<Rightarrow> int \<Rightarrow> int \<Rightarrow> real \<Rightarrow> stream_item list \<Rightarrow> KubernetesManager
     \<Rightarrow> (exn + pod_manifest) \<times> KubernetesManager" where
  "start_pod name img command environment resources node_selector max_retries timeout
       start_time events self =
     (case read_namespaced_pod name (namespace self) (api_client self) of
        (Inr pod, api) \<Rightarrow> (Inr pod, self\<lparr>api_client := api, pods := (pods self)(name \<mapsto> pod)\<rparr>)
      | (Inl e, api) \<Rightarrow>
          if e \<noteq> ApiException 404 then (Inl e, self\<lparr>api_client := api\<rparr>)
          else
            (let pod_body = create_pod_spec name img command environment resources node_selector
             in case create_loop max_retries pod_body [1 .. max_retries] 5
                       (self\<lparr>api_client := api\<rparr>) of
                  (Reraise e', self') \<Rightarrow> (Inl e', self')
                | (Exhausted, self') \<Rightarrow>
                    (Inl (RuntimeError (''Exceeded retry limit ('' @ str_int max_retries
                            @ '') creating pod '' @ quoted name)), self')
                | (Break pod, self') \<Rightarrow>
                    (case fst (wait_for_pod_running name timeout start_time events) of
                       Inl e' \<Rightarrow> (Inl e', self')
                     | Inr _ \<Rightarrow> (Inr pod, self'\<lparr>pods := (pods self')(name \<mapsto> pod)\<rparr>))))"

text \<open>\<^verbatim>\<open>delete_pod\<close>: only an \<^verbatim>\<open>ApiException\<close> is caught, and only status 404 is passed over.\<close>

definition delete_pod :: "string \<Rightarrow> int \<Rightarrow> KubernetesManager \<Rightarrow> (exn + unit) \<times> KubernetesManager" where
  "delete_pod pod_name grace_period self =
     (case delete_namespaced_pod pod_name (namespace self) grace_period (api_client self) of
        (Inr _, api) \<Rightarrow> (Inr (), self\<lparr>api_client := api, pods := (pods self)(pod_name := None)\<rparr>)
      | (Inl e, api) \<Rightarrow>
          (case e of
             ApiException status \<Rightarrow>
               if status = 404 then (Inr (), self\<lparr>api_client := api\<rparr>)
               else (Inl e, self\<lparr>api_client := api\<rparr>)
           | _ \<Rightarrow> (Inl e, self\<lparr>api_client := api\<rparr>)))"

fun is_create :: "api_call \<Rightarrow> bool" where
  "is_create (CreatePod ns body raised) = True"
| "is_create _ = False"

fun raised_by :: "api_call \<Rightarrow> exn option" where
  "raised_by (ReadPod name ns raised) = raised"
| "raised_by (CreatePod ns body raised) = raised"
| "raised_by (DeletePod name ns grace raised) = raised"

text \<open>The requests a manager operation added to the API server's log.\<close>

definition new_api_calls :: "KubernetesManager \<Rightarrow> KubernetesManager \<Rightarrow> api_call list" where
  "new_api_calls before after =
     drop (length (api_calls (api_client before))) (api_calls (api_client after))"

definition new_sleeps :: "KubernetesManager \<Rightarrow> KubernetesManager \<Rightarrow> int list" where
  "new_sleeps before after = drop (length (slept before)) (slept after)"

section \<open>Managers at construction, and worlds for the examples\<close>

text \<open>
  The constructors, over a given engine or API server, and an engine and a server with
  nothing in them, for the examples.
\<close>

definition DockerManager_init :: "docker_engine \<Rightarrow> DockerManager" where
  "DockerManager_init engine = \<lparr>client = engine, containers = Map.empty\<rparr>"

definition KubernetesManager_init :: "string \<Rightarrow> string option \<Rightarrow> bool \<Rightarrow> k8s_api \<Rightarrow> KubernetesManager" where
  "KubernetesManager_init ns kubeconfig disable api =
     \<lparr>namespace = ns, kubeconfig_path = kubeconfig, km_disable_proxy = disable,
      pods = Map.empty, api_client = api, slept = []\<rparr>"

definition idle_engine :: docker_engine where
  "idle_engine = \<lparr>engine_containers = [], engine_calls = [], engine_faults = (\<lambda>i. None),
                  name_filter = (\<lambda>wanted name. wanted = name)\<rparr>"

definition idle_api :: "(nat \<Rightarrow> exn option) \<Rightarrow> k8s_api" where
  "idle_api faults = \<lparr>api_pods = Map.empty, api_calls = [], api_faults = faults\<rparr>"

lemmas docker_sim_defs = start_container_def stop_container_def containers_list_def containers_run_def
  container_start_def container_stop_def container_remove_def engine_request_def
  DockerManager_init_def idle_engine_def new_engine_calls_def fresh_id_def dict_update_def Let_def

lemmas k8s_sim_defs = start_pod_def read_namespaced_pod_def create_namespaced_pod_def
  delete_namespaced_pod_def api_request_def KubernetesManager_init_def idle_api_def
  new_api_calls_def new_sleeps_def wait_for_pod_running_def Let_def

section \<open>DockerManager: what reaches the engine\<close>

lemma engine_request_calls:
  assumes "\<And>e. engine_calls (snd (serve e)) = engine_calls e"
  shows "engine_calls (snd (engine_request call serve eng)) = engine_calls eng @ [call]"
  using assms [of "eng\<lparr>engine_calls := engine_calls eng @ [call]\<rparr>"]
  by (simp add: engine_request_def Let_def split: option.splits)

lemma containers_list_calls:
  "engine_calls (snd (containers_list name eng)) = engine_calls eng @ [ContainersList name]"
  unfolding containers_list_def by (rule engine_request_calls) simp

lemma containers_run_calls:
  "engine_calls (snd (containers_run img command name env eng))
     = engine_calls eng @ [ContainersRun img command name env]"
  unfolding containers_run_def by (rule engine_request_calls) (simp add: Let_def)

lemma container_start_calls:
  "engine_calls (snd (container_start c eng)) = engine_calls eng @ [ContainerStart (c_id c)]"
  unfolding container_start_def by (rule engine_request_calls) simp

lemma container_stop_calls:
  "engine_calls (snd (container_stop c eng)) = engine_calls eng @ [ContainerStop (c_id c)]"
  unfolding container_stop_def by (rule engine_request_calls) simp

lemma container_remove_calls:
  "engine_calls (snd (container_remove c eng)) = engine_calls eng @ [ContainerRemove (c_id c)]"
  unfolding container_remove_def by (rule engine_request_calls) simp

lemma stop_container_new_calls:
  "new_engine_calls self (stop_container container_name self) =
     (case containers self container_name of
        None \<Rightarrow> []
      | Some c \<Rightarrow>
          (case fst (container_stop c (client self)) of
             Inl e \<Rightarrow> [ContainerStop (c_id c)]
           | Inr u \<Rightarrow> [ContainerStop (c_id c), ContainerRemove (c_id c)]))"
proof (cases "containers self container_name")
  case None
  then show ?thesis by (simp add: stop_container_def new_engine_calls_def)
next
  case (Some c)
  obtain r eng where s: "container_stop c (client self) = (r, eng)" by (cases "container_stop c (client self)")
  obtain r' eng' where rm: "container_remove c eng = (r', eng')" by (cases "container_remove c eng")
  from s have c1: "engine_calls eng = engine_calls (client self) @ [ContainerStop (c_id c)]"
    using container_stop_calls [of c "client self"] by simp
  from rm have c2: "engine_calls eng' = engine_calls eng @ [ContainerRemove (c_id c)]"
    using container_remove_calls [of c eng] by simp
  show ?thesis
    using Some s rm c1 c2
    by (cases r; cases r') (simp_all add: stop_container_def new_engine_calls_def)
qed

lemma start_container_calls:
  "engine_calls (client (snd (start_container img command name environment self))) =
     engine_calls (client self) @ ContainersList name #
       (case fst (containers_list name (client self)) of
          Inl e \<Rightarrow> []
        | Inr found \<Rightarrow>
            (case found of
               c # cs \<Rightarrow> if c_status c \<noteq> ''running'' then [ContainerStart (c_id c)] else []
             | [] \<Rightarrow>
                 [ContainersRun img command name
                    (case environment of
                       Some user \<Rightarrow> if user \<noteq> [] then dict_update [(''PATH'', DEFAULT_DOCKER_PATH)] user
                                    else [(''PATH'', DEFAULT_DOCKER_PATH)]
                     | None \<Rightarrow> [(''PATH'', DEFAULT_DOCKER_PATH)])]))"
proof -
  obtain r eng where l: "containers_list name (client self) = (r, eng)"
    by (cases "containers_list name (client self)")
  then have c1: "engine_calls eng = engine_calls (client self) @ [ContainersList name]"
    using containers_list_calls [of name "client self"] by simp
  show ?thesis
  proof (cases r)
    case (Inl e)
    with l c1 show ?thesis
      by (simp add: start_container_def)
  next
    case (Inr found)
    show ?thesis
    proof (cases found)
      case Nil
      let ?env = "case environment of
                       Some user \<Rightarrow> if user \<noteq> [] then dict_update [(''PATH'', DEFAULT_DOCKER_PATH)] user
                                    else [(''PATH'', DEFAULT_DOCKER_PATH)]
                     | None \<Rightarrow> [(''PATH'', DEFAULT_DOCKER_PATH)]"
      obtain r' eng' where run: "containers_run img command name ?env eng = (r', eng')"
        by (cases "containers_run img command name ?env eng")
      then have c2: "engine_calls eng' = engine_calls eng @ [ContainersRun img command name ?env]"
        using containers_run_calls [of img command name ?env eng] by simp
      from l Inr Nil run c1 c2 show ?thesis
        by (cases r') (simp_all add: start_container_def Let_def)
    next
      case (Cons c cs)
      obtain r' eng' where st: "container_start c eng = (r', eng')"
        by (cases "container_start c eng")
      then have c2: "engine_calls eng' = engine_calls eng @ [ContainerStart (c_id c)]"
        using container_start_calls [of c eng] by simp
      from l Inr Cons st c1 c2 show ?thesis
        by (cases r') (simp_all add: start_container_def)
    qed
  qed
qed

lemma start_container_new_calls:
  "new_engine_calls self (snd (start_container img command name environment self)) =
     ContainersList name #
       (case fst (containers_list name (client self)) of
          Inl e \<Rightarrow> []
        | Inr found \<Rightarrow>
            (case found of
               c # cs \<Rightarrow> if c_status c \<noteq> ''running'' then [ContainerStart (c_id c)] else []
             | [] \<Rightarrow>
                 [ContainersRun img command name
                    (case environment of
                       Some user \<Rightarrow> if user \<noteq> [] then dict_update [(''PATH'', DEFAULT_DOCKER_PATH)] user
                                    else [(''PATH'', DEFAULT_DOCKER_PATH)]
                     | None \<Rightarrow> [(''PATH'', DEFAULT_DOCKER_PATH)])]))"
  by (simp add: start_container_calls new_engine_calls_def)

text \<open>
  Claim C10. For every name that is not in the manager's ManagedSet, \<^verbatim>\<open>stop_container\<close>
  returns with the manager exactly as it was: no call reaches the engine, and the ManagedSet
  and the engine are unchanged. Every stop or remove call that \<^verbatim>\<open>stop_container\<close> does
  make is on the handle registered under the given name.
\<close>

theorem stop_container_unmanaged:
  "(containers self container_name = None \<longrightarrow> stop_container container_name self = self)
   \<and> (\<forall>call \<in> set (new_engine_calls self (stop_container container_name self)).
        \<exists>c. containers self container_name = Some c
          \<and> (call = ContainerStop (c_id c) \<or> call = ContainerRemove (c_id c)))"
proof (intro conjI impI ballI)
  assume "containers self container_name = None"
  then show "stop_container container_name self = self"
    by (simp add: stop_container_def)
next
  fix call
  assume "call \<in> set (new_engine_calls self (stop_container container_name self))"
  then show "\<exists>c. containers self container_name = Some c
      \<and> (call = ContainerStop (c_id c) \<or> call = ContainerRemove (c_id c))"
  proof (cases "containers self container_name")
    case None
    with \<open>call \<in> _\<close> show ?thesis
      by (simp add: stop_container_new_calls)
  next
    case (Some c)
    with \<open>call \<in> _\<close> show ?thesis
      by (cases "fst (container_stop c (client self))") (auto simp: stop_container_new_calls)
  qed
qed

theorem stop_container_unmanaged_witness:
  "stop_container ''db''
     (snd (start_container ''nginx:1'' ''/bin/bash'' ''web'' None (DockerManager_init idle_engine)))
   = snd (start_container ''nginx:1'' ''/bin/bash'' ''web'' None (DockerManager_init idle_engine))
   \<and> containers (snd (start_container ''nginx:1'' ''/bin/bash'' ''web'' None
        (DockerManager_init idle_engine))) ''web'' \<noteq> None"
proof -
  let ?m = "snd (start_container ''nginx:1'' ''/bin/bash'' ''web'' None (DockerManager_init idle_engine))"
  have reg: "containers ?m ''db'' = None" and web: "containers ?m ''web'' \<noteq> None"
    by (simp_all add: docker_sim_defs)
  from stop_container_unmanaged [of ?m "''db''"] reg web show ?thesis
    by blast
qed

section \<open>The environment handed to the engine\<close>

lemma dict_update_map_of:
  "distinct (map fst other) \<Longrightarrow> map_of (dict_update d other) = map_of d ++ map_of other"
proof (induction other arbitrary: d)
  case Nil
  show ?case by (simp add: dict_update_def)
next
  case (Cons p other)
  obtain k v where p: "p = (k, v)" by (cases p)
  from Cons.prems p have k: "k \<notin> dom (map_of other)" and dist: "distinct (map fst other)"
    by (auto simp: dom_map_of_conv_image_fst)
  have "dict_update d (p # other) = dict_update (AList.update k v d) other"
    by (simp add: dict_update_def p)
  then have "map_of (dict_update d (p # other)) = (map_of d)(k \<mapsto> v) ++ map_of other"
    by (simp only: Cons.IH [OF dist] AList.update_conv')
  also have "\<dots> = (map_of d ++ map_of other)(k \<mapsto> v)"
    using k by (rule map_add_upd_left)
  also have "\<dots> = map_of d ++ map_of (p # other)"
    by (simp add: p)
  finally show ?case .
qed

lemma merged_environment_lookup:
  assumes "distinct (map fst (case environment of None \<Rightarrow> [] | Some user \<Rightarrow> user))"
  shows "map_of (case environment of
                   Some user \<Rightarrow> if user \<noteq> [] then dict_update [(''PATH'', DEFAULT_DOCKER_PATH)] user
                                else [(''PATH'', DEFAULT_DOCKER_PATH)]
                 | None \<Rightarrow> [(''PATH'', DEFAULT_DOCKER_PATH)]) k =
         (case map_of (case environment of None \<Rightarrow> [] | Some user \<Rightarrow> user) k of
            Some v \<Rightarrow> Some v
          | None \<Rightarrow> if k = ''PATH'' then Some DEFAULT_DOCKER_PATH else None)"
proof (cases environment)
  case None
  then show ?thesis by simp
next
  case (Some user)
  with assms have "distinct (map fst user)" by simp
  then have "map_of (dict_update [(''PATH'', DEFAULT_DOCKER_PATH)] user)
      = map_of [(''PATH'', DEFAULT_DOCKER_PATH)] ++ map_of user"
    by (rule dict_update_map_of)
  with Some show ?thesis
    by (cases "user = []") (auto simp: map_add_def split: option.splits)
qed

text \<open>
  Claim C7. For every user-supplied environment mapping (none, empty, or with unique
  keys), the environment of every \<^verbatim>\<open>containers.run\<close> call that \<^verbatim>\<open>start_container\<close>
  makes, and the environment list of the one container of the pod specification, map
  each key as the user does where the user supplies it (also \<^verbatim>\<open>PATH\<close>), map \<^verbatim>\<open>PATH\<close> to
  the baseline default where the user does not supply it, and have no other key.
\<close>

theorem environment_merge:
  assumes "distinct (map fst (case environment of None \<Rightarrow> [] | Some user \<Rightarrow> user))"
  shows "(\<forall>i c n env.
            ContainersRun i c n env
              \<in> set (new_engine_calls self (snd (start_container img command name environment self)))
            \<longrightarrow> map_of env k =
              (case map_of (case environment of None \<Rightarrow> [] | Some user \<Rightarrow> user) k of
                 Some v \<Rightarrow> Some v
               | None \<Rightarrow> if k = ''PATH'' then Some DEFAULT_DOCKER_PATH else None))
       \<and> (\<exists>spec. spec_containers
                   (create_pod_spec name img command environment resources node_selector) = [spec]
            \<and> map_of (cs_env spec) k =
              (case map_of (case environment of None \<Rightarrow> [] | Some user \<Rightarrow> user) k of
                 Some v \<Rightarrow> Some v
               | None \<Rightarrow> if k = ''PATH'' then Some DEFAULT_DOCKER_PATH else None))"
proof (intro conjI allI impI)
  fix i c n env
  assume "ContainersRun i c n env
      \<in> set (new_engine_calls self (snd (start_container img command name environment self)))"
  then have "env = (case environment of
                   Some user \<Rightarrow> if user \<noteq> [] then dict_update [(''PATH'', DEFAULT_DOCKER_PATH)] user
                                else [(''PATH'', DEFAULT_DOCKER_PATH)]
                 | None \<Rightarrow> [(''PATH'', DEFAULT_DOCKER_PATH)])"
    unfolding start_container_new_calls
    by (cases "fst (containers_list name (client self))")
       (auto split: list.splits if_splits)
  then show "map_of env k =
      (case map_of (case environment of None \<Rightarrow> [] | Some user \<Rightarrow> user) k of
         Some v \<Rightarrow> Some v
       | None \<Rightarrow> if k = ''PATH'' then Some DEFAULT_DOCKER_PATH else None)"
    using merged_environment_lookup [OF assms] by simp
next
  show "\<exists>spec. spec_containers
                   (create_pod_spec name img command environment resources node_selector) = [spec]
            \<and> map_of (cs_env spec) k =
              (case map_of (case environment of None \<Rightarrow> [] | Some user \<Rightarrow> user) k of
                 Some v \<Rightarrow> Some v
               | None \<Rightarrow> if k = ''PATH'' then Some DEFAULT_DOCKER_PATH else None)"
    using merged_environment_lookup [OF assms, of k]
    by (simp add: create_pod_spec_def Let_def)
qed

theorem environment_merge_witness:
  "(\<exists>spec. spec_containers (create_pod_spec ''box'' ''busybox'' ''sleep 1''
        (Some [(''FOO'', ''1''), (''PATH'', ''/bin'')]) None None) = [spec]
      \<and> map_of (cs_env spec) ''PATH'' = Some ''/bin'')
   \<and> new_engine_calls (DockerManager_init idle_engine)
        (snd (start_container ''busybox'' ''sh'' ''box'' (Some [(''FOO'', ''1''), (''PATH'', ''/bin'')])
           (DockerManager_init idle_engine)))
      = [ContainersList ''box'',
         ContainersRun ''busybox'' ''sh'' ''box'' [(''PATH'', ''/bin''), (''FOO'', ''1'')]]"
proof -
  have d: "distinct (map fst (case Some [(''FOO'', ''1''), (''PATH'', ''/bin'')] of
      None \<Rightarrow> [] | Some user \<Rightarrow> user))"
    by simp
  have calls: "new_engine_calls (DockerManager_init idle_engine)
        (snd (start_container ''busybox'' ''sh'' ''box'' (Some [(''FOO'', ''1''), (''PATH'', ''/bin'')])
           (DockerManager_init idle_engine)))
      = [ContainersList ''box'',
         ContainersRun ''busybox'' ''sh'' ''box'' [(''PATH'', ''/bin''), (''FOO'', ''1'')]]"
    by (simp add: docker_sim_defs)
  from environment_merge [OF d, where k = "''PATH''" and name = "''box''" and img = "''busybox''"
      and command = "''sleep 1''" and resources = None and node_selector = None]
  have "\<exists>spec. spec_containers (create_pod_spec ''box'' ''busybox'' ''sleep 1''
        (Some [(''FOO'', ''1''), (''PATH'', ''/bin'')]) None None) = [spec]
      \<and> map_of (cs_env spec) ''PATH'' = Some ''/bin''"
    by simp
  with calls show ?thesis by blast
qed

section \<open>Deleting a pod\<close>

text \<open>
  Claim C8. For every pod name: when the API answers the deletion with status 404,
  \<^verbatim>\<open>delete_pod\<close> returns without error (the ManagedSet is left as it is); any other
  error of the API is raised to the caller, the ManagedSet unchanged; and when the
  deletion succeeds the name is no longer in the ManagedSet.
\<close>

theorem delete_pod_contract:
  "(fst (delete_namespaced_pod pod_name (namespace self) grace_period (api_client self))
      = Inl (ApiException 404) \<longrightarrow>
    fst (delete_pod pod_name grace_period self) = Inr ()
    \<and> pods (snd (delete_pod pod_name grace_period self)) = pods self)
 \<and> (\<forall>e. fst (delete_namespaced_pod pod_name (namespace self) grace_period (api_client self)) = Inl e
        \<and> e \<noteq> ApiException 404 \<longrightarrow>
    fst (delete_pod pod_name grace_period self) = Inl e
    \<and> pods (snd (delete_pod pod_name grace_period self)) = pods self)
 \<and> (fst (delete_namespaced_pod pod_name (namespace self) grace_period (api_client self)) = Inr () \<longrightarrow>
    fst (delete_pod pod_name grace_period self) = Inr ()
    \<and> pods (snd (delete_pod pod_name grace_period self)) = (pods self)(pod_name := None))"
  by (cases "delete_namespaced_pod pod_name (namespace self) grace_period (api_client self)")
     (auto simp: delete_pod_def split: sum.splits exn.splits)

theorem delete_pod_contract_witness:
  "fst (delete_pod ''gone'' 0 (KubernetesManager_init ''default'' None True (idle_api (\<lambda>i. None))))
     = Inr ()
   \<and> fst (delete_pod ''busy'' 0 (KubernetesManager_init ''default'' None True
        (idle_api (\<lambda>i. Some (ApiException 500))))) = Inl (ApiException 500)"
proof -
  have a: "fst (delete_namespaced_pod ''gone'' (namespace (KubernetesManager_init ''default'' None True (idle_api (\<lambda>i. None)))) 0
      (api_client (KubernetesManager_init ''default'' None True (idle_api (\<lambda>i. None)))))
      = Inl (ApiException 404)"
    by (simp add: delete_namespaced_pod_def api_request_def KubernetesManager_init_def idle_api_def)
  have b: "fst (delete_namespaced_pod ''busy'' (namespace (KubernetesManager_init ''default'' None True (idle_api (\<lambda>i. Some (ApiException 500))))) 0
      (api_client (KubernetesManager_init ''default'' None True (idle_api (\<lambda>i. Some (ApiException 500))))))
      = Inl (ApiException 500)"
    by (simp add: delete_namespaced_pod_def api_request_def KubernetesManager_init_def idle_api_def)
  from delete_pod_contract [of "''gone''" "KubernetesManager_init ''default'' None True (idle_api (\<lambda>i. None))" 0] a
  have 1: "fst (delete_pod ''gone'' 0 (KubernetesManager_init ''default'' None True (idle_api (\<lambda>i. None)))) = Inr ()"
    by blast
  from delete_pod_contract [of "''busy''" "KubernetesManager_init ''default'' None True (idle_api (\<lambda>i. Some (ApiException 500)))" 0] b
  have 2: "fst (delete_pod ''busy'' 0 (KubernetesManager_init ''default'' None True
        (idle_api (\<lambda>i. Some (ApiException 500))))) = Inl (ApiException 500)"
    by simp
  from 1 2 show ?thesis by blast
qed


section \<open>Pod creation: the retry loop\<close>

text \<open>
  The schedule the specification describes: \<open>n\<close> delays, the first \<open>b\<close>, each next one
  twice the one before, capped at 60.
\<close>

fun backoff_delays :: "int \<Rightarrow> nat \<Rightarrow> int list" where
  "backoff_delays b 0 = []"
| "backoff_delays b (Suc n) = b # backoff_delays (min (b * 2) 60) n"

definition retryable :: "api_call \<Rightarrow> bool" where
  "retryable c = (\<exists>status \<in> set [409, 429, 500, 503]. raised_by c = Some (ApiException status))"

lemma api_request_effect:
  assumes "\<And>a. api_calls (snd (serve a)) = api_calls a"
    and "\<And>a. api_faults (snd (serve a)) = api_faults a"
  shows "api_calls (snd (api_request call serve api)) =
           api_calls api @ [call (case fst (api_request call serve api) of
                                    Inl e \<Rightarrow> Some e | Inr x \<Rightarrow> None)]"
    and "api_faults (snd (api_request call serve api)) = api_faults api"
  using assms [of api]
  by (auto simp: api_request_def Let_def split: option.splits prod.splits sum.splits)

lemma create_namespaced_pod_calls:
  "api_calls (snd (create_namespaced_pod ns body api)) =
     api_calls api @ [CreatePod ns body (case fst (create_namespaced_pod ns body api) of
                                          Inl e \<Rightarrow> Some e | Inr x \<Rightarrow> None)]"
  unfolding create_namespaced_pod_def
  by (rule api_request_effect) (simp_all split: option.splits)

lemma create_namespaced_pod_faults:
  "api_faults (snd (create_namespaced_pod ns body api)) = api_faults api"
  unfolding create_namespaced_pod_def
  by (rule api_request_effect) (simp_all split: option.splits)

lemma read_namespaced_pod_calls:
  "api_calls (snd (read_namespaced_pod name ns api)) =
     api_calls api @ [ReadPod name ns (case fst (read_namespaced_pod name ns api) of
                                        Inl e \<Rightarrow> Some e | Inr x \<Rightarrow> None)]"
  unfolding read_namespaced_pod_def
  by (rule api_request_effect) (simp_all split: option.splits)

lemma read_namespaced_pod_faults:
  "api_faults (snd (read_namespaced_pod name ns api)) = api_faults api"
  unfolding read_namespaced_pod_def
  by (rule api_request_effect) (simp_all split: option.splits)

lemma create_loop_not_exhausted:
  "xs \<noteq> [] \<Longrightarrow> last xs = max_retries \<Longrightarrow>
   fst (create_loop max_retries pod_body xs backoff self) \<noteq> Exhausted"
proof (induction xs arbitrary: backoff self)
  case Nil
  then show ?case by simp
next
  case (Cons attempt rest)
  show ?case
  proof (cases "rest = []")
    case True
    with Cons.prems have "\<not> attempt < max_retries" by simp
    then show ?thesis
      by (simp add: True split: prod.splits sum.splits exn.splits)
  next
    case False
    with Cons.prems have "last rest = max_retries" by simp
    with False have "\<And>b s. fst (create_loop max_retries pod_body rest b s) \<noteq> Exhausted"
      by (rule Cons.IH)
    then show ?thesis
      by (simp split: prod.splits sum.splits exn.splits)
  qed
qed

lemma upto_last: "(1::int) \<le> n \<Longrightarrow> [1..n] \<noteq> [] \<and> last [1..n] = n"
  by (simp add: upto_rec2)

text \<open>
  Claim C9. For every retry budget \<open>max_retries \<ge> 1\<close>, every pod body and every state of
  the manager and of the API server (so every sequence of responses), the retry loop
  over \<^verbatim>\<open>range(1, max_retries + 1)\<close> leaves by \<^verbatim>\<open>break\<close> or by re-raising, never by
  running out of attempts: the \<^verbatim>\<open>else\<close> branch with the "Exceeded retry limit" error does
  not run.
\<close>

theorem retry_limit_branch_unreachable:
  "1 \<le> max_retries \<Longrightarrow>
   fst (create_loop max_retries pod_body [1 .. max_retries] 5 self) \<noteq> Exhausted"
  using upto_last [of max_retries] by (simp add: create_loop_not_exhausted)

theorem retry_limit_branch_unreachable_witness:
  "fst (create_loop 1 (create_pod_spec ''job'' ''python:3'' ''sleep infinity'' None None None)
          [1 .. 1] 5
          (KubernetesManager_init ''default'' None True (idle_api (\<lambda>i. Some (ApiException 503)))))
     = Reraise (ApiException 503)"
proof -
  have "fst (create_loop 1 (create_pod_spec ''job'' ''python:3'' ''sleep infinity'' None None None)
          [1 .. 1] 5
          (KubernetesManager_init ''default'' None True (idle_api (\<lambda>i. Some (ApiException 503)))))
     \<noteq> Exhausted"
    by (rule retry_limit_branch_unreachable) simp
  then show ?thesis
    by (simp add: k8s_sim_defs)
qed

lemma create_loop_effects:
  "\<exists>n calls.
     slept (snd (create_loop N body xs b self)) = slept self @ backoff_delays b n
   \<and> api_calls (api_client (snd (create_loop N body xs b self)))
        = api_calls (api_client self) @ calls
   \<and> (\<forall>c \<in> set calls. is_create c)
   \<and> length calls = (if fst (create_loop N body xs b self) = Exhausted then n else Suc n)
   \<and> length calls \<le> length xs
   \<and> (\<forall>c \<in> set (take n calls). retryable c)
   \<and> (case fst (create_loop N body xs b self) of
        Break pod \<Rightarrow> raised_by (last calls) = None
      | Reraise e \<Rightarrow> raised_by (last calls) = Some e
      | Exhausted \<Rightarrow> True)
   \<and> pods (snd (create_loop N body xs b self)) = pods self
   \<and> namespace (snd (create_loop N body xs b self)) = namespace self
   \<and> api_faults (api_client (snd (create_loop N body xs b self))) = api_faults (api_client self)"
proof (induction xs arbitrary: b self)
  case Nil
  show ?case
    by (rule exI [of _ 0], rule exI [of _ "[]"]) simp
next
  case (Cons attempt rest)
  obtain r api where cr: "create_namespaced_pod (namespace self) body (api_client self) = (r, api)"
    by (cases "create_namespaced_pod (namespace self) body (api_client self)")
  let ?call = "CreatePod (namespace self) body (case r of Inl e \<Rightarrow> Some e | Inr x \<Rightarrow> None)"
  from cr have calls: "api_calls api = api_calls (api_client self) @ [?call]"
    using create_namespaced_pod_calls [of "namespace self" body "api_client self"] by simp
  from cr have faults: "api_faults api = api_faults (api_client self)"
    using create_namespaced_pod_faults [of "namespace self" body "api_client self"] by simp
  let ?retry = "\<exists>status. r = Inl (ApiException status)
      \<and> status \<in> set [409, 429, 500, 503] \<and> attempt < N"
  show ?case
  proof (cases ?retry)
    case False
    then have res: "create_loop N body (attempt # rest) b self =
        ((case r of Inr pod \<Rightarrow> Break pod | Inl e \<Rightarrow> Reraise e), self\<lparr>api_client := api\<rparr>)"
      using cr by (auto split: sum.splits exn.splits)
    show ?thesis
      unfolding res
      by (rule exI [of _ 0], rule exI [of _ "[?call]"])
         (simp add: calls faults split: sum.splits)
  next
    case True
    then obtain status where r: "r = Inl (ApiException status)"
      and st: "status \<in> set [409, 429, 500, 503]" and att: "attempt < N"
      by blast
    let ?self' = "self\<lparr>api_client := api, slept := slept self @ [b]\<rparr>"
    let ?R = "create_loop N body rest (min (b * 2) 60) ?self'"
    have res: "create_loop N body (attempt # rest) b self = ?R"
      using cr r st att by simp
    from Cons.IH [of "min (b * 2) 60" ?self'] obtain n calls' where
      ih: "slept (snd ?R) = slept ?self' @ backoff_delays (min (b * 2) 60) n"
        "api_calls (api_client (snd ?R)) = api_calls (api_client ?self') @ calls'"
        "\<forall>c \<in> set calls'. is_create c"
        "length calls' = (if fst ?R = Exhausted then n else Suc n)"
        "length calls' \<le> length rest"
        "\<forall>c \<in> set (take n calls'). retryable c"
        "case fst ?R of Break pod \<Rightarrow> raised_by (last calls') = None
          | Reraise e \<Rightarrow> raised_by (last calls') = Some e | Exhausted \<Rightarrow> True"
        "pods (snd ?R) = pods ?self'"
        "namespace (snd ?R) = namespace ?self'"
        "api_faults (api_client (snd ?R)) = api_faults (api_client ?self')"
      by blast
    have rc: "retryable ?call"
      using r st by (simp add: retryable_def)
    have last_eq: "fst ?R \<noteq> Exhausted \<Longrightarrow> last (?call # calls') = last calls'"
      using ih(4) by (cases calls') auto
    show ?thesis
      unfolding res
    proof (rule exI [of _ "Suc n"], rule exI [of _ "?call # calls'"], intro conjI)
      show "slept (snd ?R) = slept self @ backoff_delays b (Suc n)"
        using ih(1) by simp
      show "api_calls (api_client (snd ?R)) = api_calls (api_client self) @ ?call # calls'"
        using ih(2) calls by simp
      show "\<forall>c \<in> set (?call # calls'). is_create c"
        using ih(3) by simp
      show "length (?call # calls') = (if fst ?R = Exhausted then Suc n else Suc (Suc n))"
        using ih(4) by simp
      show "length (?call # calls') \<le> length (attempt # rest)"
        using ih(5) by simp
      show "\<forall>c \<in> set (take (Suc n) (?call # calls')). retryable c"
        using ih(6) rc by simp
      show "case fst ?R of Break pod \<Rightarrow> raised_by (last (?call # calls')) = None
          | Reraise e \<Rightarrow> raised_by (last (?call # calls')) = Some e | Exhausted \<Rightarrow> True"
        using ih(7) last_eq by (cases "fst ?R") simp_all
      show "pods (snd ?R) = pods self"
        using ih(8) by simp
      show "namespace (snd ?R) = namespace self"
        using ih(9) by simp
      show "api_faults (api_client (snd ?R)) = api_faults (api_client self)"
        using ih(10) faults by simp
    qed
  qed
qed

lemma length_backoff_delays: "length (backoff_delays b n) = n"
  by (induction n arbitrary: b) simp_all

lemma backoff_delays_bounds:
  "0 < b \<Longrightarrow> b \<le> 60 \<Longrightarrow> \<forall>d \<in> set (backoff_delays b n). b \<le> d \<and> d \<le> 60"
proof (induction n arbitrary: b)
  case 0
  show ?case by simp
next
  case (Suc n)
  have "0 < min (b * 2) 60" and "min (b * 2) 60 \<le> 60" and "b \<le> min (b * 2) 60"
    using Suc.prems by simp_all
  with Suc.IH [of "min (b * 2) 60"] Suc.prems show ?case
    by fastforce
qed

lemma backoff_delays_sorted: "0 < b \<Longrightarrow> b \<le> 60 \<Longrightarrow> sorted (backoff_delays b n)"
proof (induction n arbitrary: b)
  case 0
  show ?case by simp
next
  case (Suc n)
  have b': "0 < min (b * 2) 60" "min (b * 2) 60 \<le> 60" and le: "b \<le> min (b * 2) 60"
    using Suc.prems by simp_all
  from backoff_delays_bounds [OF b', of n] le
  have "\<forall>d \<in> set (backoff_delays (min (b * 2) 60) n). b \<le> d"
    by fastforce
  with Suc.IH [OF b'] show ?case
    by simp
qed

lemma backoff_delays_step:
  "Suc i < n \<Longrightarrow> backoff_delays b n ! Suc i = min (backoff_delays b n ! i * 2) 60"
proof (induction n arbitrary: b i)
  case 0
  then show ?case by simp
next
  case (Suc n)
  then obtain m where n: "n = Suc m" by (cases n) auto
  show ?case
  proof (cases i)
    case 0
    then show ?thesis by (simp add: n)
  next
    case (Suc j)
    with Suc.prems have "Suc j < n" by simp
    from Suc.IH [OF this, of "min (b * 2) 60"] show ?thesis
      by (simp add: Suc)
  qed
qed

lemma start_pod_effects:
  "\<exists>n calls rd.
     new_sleeps self (snd (start_pod name img command environment resources node_selector
        max_retries timeout start_time events self)) = backoff_delays 5 n
   \<and> api_calls (api_client (snd (start_pod name img command environment resources node_selector
        max_retries timeout start_time events self)))
       = api_calls (api_client self) @ rd # calls
   \<and> \<not> is_create rd
   \<and> (\<forall>c \<in> set calls. is_create c)
   \<and> (if calls = [] then n = 0 else length calls = Suc n)
   \<and> int (length calls) \<le> max 0 max_retries
   \<and> (\<forall>c \<in> set (take n calls). retryable c)
   \<and> (calls \<noteq> [] \<longrightarrow>
        (case fst (start_pod name img command environment resources node_selector
                max_retries timeout start_time events self) of
           Inr pod \<Rightarrow> raised_by (last calls) = None
             \<and> fst (wait_for_pod_running name timeout start_time events) = Inr ()
         | Inl e \<Rightarrow> raised_by (last calls) = Some e
             \<or> raised_by (last calls) = None
               \<and> fst (wait_for_pod_running name timeout start_time events) = Inl e))
   \<and> pods (snd (start_pod name img command environment resources node_selector
        max_retries timeout start_time events self))
       = (case fst (start_pod name img command environment resources node_selector
                max_retries timeout start_time events self) of
            Inr pod \<Rightarrow> (pods self)(name \<mapsto> pod)
          | Inl e \<Rightarrow> pods self)"
proof -
  let ?R = "start_pod name img command environment resources node_selector
        max_retries timeout start_time events self"
  obtain r0 api0 where rd: "read_namespaced_pod name (namespace self) (api_client self) = (r0, api0)"
    by (cases "read_namespaced_pod name (namespace self) (api_client self)")
  let ?rd = "ReadPod name (namespace self) (case r0 of Inl e \<Rightarrow> Some e | Inr x \<Rightarrow> None)"
  from rd have calls0: "api_calls api0 = api_calls (api_client self) @ [?rd]"
    using read_namespaced_pod_calls [of name "namespace self" "api_client self"] by simp
  let ?body = "create_pod_spec name img command environment resources node_selector"
  let ?self0 = "self\<lparr>api_client := api0\<rparr>"
  let ?L = "create_loop max_retries ?body [1 .. max_retries] 5 ?self0"
  show ?thesis
  proof (cases "r0 = Inl (ApiException 404)")
    case False
    then have R: "?R = (case r0 of
        Inr pod \<Rightarrow> (Inr pod, self\<lparr>api_client := api0, pods := (pods self)(name \<mapsto> pod)\<rparr>)
      | Inl e \<Rightarrow> (Inl e, self\<lparr>api_client := api0\<rparr>))"
      using rd by (simp add: start_pod_def split: sum.splits)
    show ?thesis
      unfolding R
      by (rule exI [of _ 0], rule exI [of _ "[]"], rule exI [of _ ?rd])
         (simp add: new_sleeps_def calls0 split: sum.splits)
  next
    case True
    obtain n calls where
      L: "slept (snd ?L) = slept ?self0 @ backoff_delays 5 n"
        "api_calls (api_client (snd ?L)) = api_calls (api_client ?self0) @ calls"
        "\<forall>c \<in> set calls. is_create c"
        "length calls = (if fst ?L = Exhausted then n else Suc n)"
        "length calls \<le> length [1 .. max_retries]"
        "\<forall>c \<in> set (take n calls). retryable c"
        "case fst ?L of Break pod \<Rightarrow> raised_by (last calls) = None
          | Reraise e \<Rightarrow> raised_by (last calls) = Some e | Exhausted \<Rightarrow> True"
        "pods (snd ?L) = pods ?self0"
      using create_loop_effects [of max_retries ?body "[1 .. max_retries]" 5 ?self0] by blast
    have exh: "fst ?L = Exhausted \<Longrightarrow> calls = [] \<and> n = 0"
    proof -
      assume e: "fst ?L = Exhausted"
      then have "\<not> 1 \<le> max_retries"
        using upto_last [of max_retries]
          create_loop_not_exhausted [of "[1 .. max_retries]" max_retries ?body 5 ?self0]
        by fastforce
      then have "[1 .. max_retries] = []" by simp
      with L(4,5) e show ?thesis by simp
    qed
    have R: "?R = (case fst ?L of
          Reraise e' \<Rightarrow> (Inl e', snd ?L)
        | Exhausted \<Rightarrow> (Inl (RuntimeError (''Exceeded retry limit ('' @ str_int max_retries
                            @ '') creating pod '' @ quoted name)), snd ?L)
        | Break pod \<Rightarrow>
            (case fst (wait_for_pod_running name timeout start_time events) of
               Inl e' \<Rightarrow> (Inl e', snd ?L)
             | Inr u \<Rightarrow> (Inr pod, (snd ?L)\<lparr>pods := (pods (snd ?L))(name \<mapsto> pod)\<rparr>)))"
      using rd True
      by (simp add: start_pod_def Let_def split: prod.splits loop_exit.splits sum.splits)
    have sl: "new_sleeps self (snd ?R) = backoff_delays 5 n"
      unfolding R using L(1)
      by (simp add: new_sleeps_def split: loop_exit.splits sum.splits)
    have ca: "api_calls (api_client (snd ?R)) = api_calls (api_client self) @ ?rd # calls"
      unfolding R using L(2) calls0
      by (simp split: loop_exit.splits sum.splits)
    have len: "if calls = [] then n = 0 else length calls = Suc n"
      using L(4) exh by (cases "fst ?L = Exhausted") auto
    have bound: "int (length calls) \<le> max 0 max_retries"
      using L(5) by simp
    have outcome: "calls \<noteq> [] \<longrightarrow>
        (case fst ?R of
           Inr pod \<Rightarrow> raised_by (last calls) = None
             \<and> fst (wait_for_pod_running name timeout start_time events) = Inr ()
         | Inl e \<Rightarrow> raised_by (last calls) = Some e
             \<or> raised_by (last calls) = None
               \<and> fst (wait_for_pod_running name timeout start_time events) = Inl e)"
      unfolding R using L(7) exh
      by (cases "fst ?L"; cases "fst (wait_for_pod_running name timeout start_time events)") auto
    have reg: "pods (snd ?R) = (case fst ?R of Inr pod \<Rightarrow> (pods self)(name \<mapsto> pod) | Inl e \<Rightarrow> pods self)"
      unfolding R using L(8)
      by (cases "fst ?L"; cases "fst (wait_for_pod_running name timeout start_time events)") auto
    from sl ca L(3) len bound L(6) outcome reg show ?thesis
      by (intro exI [of _ n] exI [of _ calls] exI [of _ ?rd]) simp
  qed
qed

lemma backoff_delays_nth:
  "i < n \<Longrightarrow> backoff_delays (min (5 * 2 ^ j) 60) n ! i = min (5 * 2 ^ (j + i)) 60"
proof (induction n arbitrary: i j)
  case 0
  then show ?case by simp
next
  case (Suc n)
  have next_b: "min (min (5 * 2 ^ j) 60 * 2) 60 = min (5 * 2 ^ Suc j) (60::int)"
    by (cases "(5::int) * 2 ^ j \<le> 60") simp_all
  show ?case
  proof (cases i)
    case 0
    then show ?thesis by simp
  next
    case (Suc k)
    with Suc.prems have "k < n" by simp
    from Suc.IH [OF this, of "Suc j"] show ?thesis
      by (simp add: Suc next_b)
  qed
qed

lemma backoff_delays_5_nth: "i < n \<Longrightarrow> backoff_delays 5 n ! i = min (5 * 2 ^ i) 60"
  using backoff_delays_nth [of i n 0] by simp

text \<open>
  What holds of \<^verbatim>\<open>start_pod\<close> with retry budget \<open>max_retries\<close>, from every state and for
  every behaviour of the API server. The delays slept are 5, 10, 20, 40, 60, 60, ...: the
  first is 5, each next one is twice the one before capped at 60, so the sequence is
  non-decreasing and never exceeds 60; there is one delay between two consecutive creation
  calls. At most \<open>max_retries\<close> creation calls are made. Every creation call but the last
  raised an API error of status 409, 429, 500 or 503, and what the last one raised, if
  anything, is raised to the caller. Once a creation call is made, the ManagedSet changes
  only by registering the returned pod, and only when the readiness wait has returned
  without raising.
\<close>

theorem pod_creation_retry:
  "let R = start_pod name img command environment resources node_selector
             max_retries timeout start_time events self;
       delays = new_sleeps self (snd R);
       creations = filter is_create (new_api_calls self (snd R))
   in (delays \<noteq> [] \<longrightarrow> hd delays = 5)
    \<and> (\<forall>i. Suc i < length delays \<longrightarrow> delays ! Suc i = min (2 * delays ! i) 60)
    \<and> (\<forall>i < length delays. delays ! i = min (5 * 2 ^ i) 60)
    \<and> sorted delays
    \<and> (\<forall>d \<in> set delays. 5 \<le> d \<and> d \<le> 60)
    \<and> length delays = length creations - 1
    \<and> int (length creations) \<le> max 0 max_retries
    \<and> (\<forall>c \<in> set (butlast creations).
          \<exists>status \<in> set [409, 429, 500, 503]. raised_by c = Some (ApiException status))
    \<and> (\<forall>e. creations \<noteq> [] \<and> raised_by (last creations) = Some e \<longrightarrow> fst R = Inl e)
    \<and> (creations \<noteq> [] \<and> fst (wait_for_pod_running name timeout start_time events) \<noteq> Inr ()
          \<longrightarrow> pods (snd R) = pods self \<and> (\<exists>e. fst R = Inl e))
    \<and> (\<forall>pod. fst R = Inr pod \<longrightarrow> pods (snd R) = (pods self)(name \<mapsto> pod))"
proof -
  let ?R = "start_pod name img command environment resources node_selector
             max_retries timeout start_time events self"
  obtain n calls rd where
    e: "new_sleeps self (snd ?R) = backoff_delays 5 n"
      "api_calls (api_client (snd ?R)) = api_calls (api_client self) @ rd # calls"
      "\<not> is_create rd"
      "\<forall>c \<in> set calls. is_create c"
      "if calls = [] then n = 0 else length calls = Suc n"
      "int (length calls) \<le> max 0 max_retries"
      "\<forall>c \<in> set (take n calls). retryable c"
      "calls \<noteq> [] \<longrightarrow>
        (case fst ?R of
           Inr pod \<Rightarrow> raised_by (last calls) = None
             \<and> fst (wait_for_pod_running name timeout start_time events) = Inr ()
         | Inl e \<Rightarrow> raised_by (last calls) = Some e
             \<or> raised_by (last calls) = None
               \<and> fst (wait_for_pod_running name timeout start_time events) = Inl e)"
      "pods (snd ?R) = (case fst ?R of Inr pod \<Rightarrow> (pods self)(name \<mapsto> pod) | Inl e \<Rightarrow> pods self)"
    using start_pod_effects [of self name img command environment resources node_selector
        max_retries timeout start_time events]
    by blast
  have cs: "filter is_create (new_api_calls self (snd ?R)) = calls"
    using e(2,3,4) by (simp add: new_api_calls_def)
  have n: "n = length calls - 1"
    using e(5) by (cases "calls = []") simp_all
  have c1: "backoff_delays 5 n \<noteq> [] \<longrightarrow> hd (backoff_delays 5 n) = 5"
    by (cases n) simp_all
  have c2: "\<forall>i. Suc i < length (backoff_delays 5 n) \<longrightarrow>
      backoff_delays 5 n ! Suc i = min (2 * backoff_delays 5 n ! i) 60"
    using backoff_delays_step [of _ n 5] by (simp add: length_backoff_delays mult.commute)
  have c3: "\<forall>i < length (backoff_delays 5 n). backoff_delays 5 n ! i = min (5 * 2 ^ i) 60"
    by (simp add: length_backoff_delays backoff_delays_5_nth)
  have c4: "sorted (backoff_delays 5 n)"
    by (rule backoff_delays_sorted) simp_all
  have c5: "\<forall>d \<in> set (backoff_delays 5 n). 5 \<le> d \<and> d \<le> 60"
    by (rule backoff_delays_bounds) simp_all
  have c6: "length (backoff_delays 5 n) = length calls - 1"
    using n by (simp add: length_backoff_delays)
  have "butlast calls = take n calls"
    using n by (simp add: butlast_conv_take)
  with e(7) have c8: "\<forall>c \<in> set (butlast calls).
      \<exists>status \<in> set [409, 429, 500, 503]. raised_by c = Some (ApiException status)"
    by (simp add: retryable_def)
  have c9: "\<forall>x. calls \<noteq> [] \<and> raised_by (last calls) = Some x \<longrightarrow> fst ?R = Inl x"
    using e(8) by (cases "fst ?R") auto
  have c10: "calls \<noteq> [] \<and> fst (wait_for_pod_running name timeout start_time events) \<noteq> Inr ()
      \<longrightarrow> pods (snd ?R) = pods self \<and> (\<exists>x. fst ?R = Inl x)"
    using e(8,9) by (cases "fst ?R") auto
  have c11: "\<forall>pod. fst ?R = Inr pod \<longrightarrow> pods (snd ?R) = (pods self)(name \<mapsto> pod)"
    using e(9) by simp
  show ?thesis
    unfolding Let_def cs e(1)
    using c1 c2 c3 c4 c5 c6 e(6) c8 c9 c10 c11 by blast
qed

theorem pod_creation_retry_witness:
  "new_sleeps
     (KubernetesManager_init ''default'' None True
        (idle_api (\<lambda>i. if i = 1 \<or> i = 2 then Some (ApiException 409) else None)))
     (snd (start_pod ''job'' ''python:3'' ''sleep infinity'' None None None 5 1200 0
        [Event (Some ''Pending'') 1, Event (Some ''Pending'') 2, Event (Some ''Running'') 3]
        (KubernetesManager_init ''default'' None True
           (idle_api (\<lambda>i. if i = 1 \<or> i = 2 then Some (ApiException 409) else None)))))
     = [5, 10]
   \<and> length (filter is_create (new_api_calls
        (KubernetesManager_init ''default'' None True
           (idle_api (\<lambda>i. if i = 1 \<or> i = 2 then Some (ApiException 409) else None)))
        (snd (start_pod ''job'' ''python:3'' ''sleep infinity'' None None None 5 1200 0
           [Event (Some ''Pending'') 1, Event (Some ''Pending'') 2, Event (Some ''Running'') 3]
           (KubernetesManager_init ''default'' None True
              (idle_api (\<lambda>i. if i = 1 \<or> i = 2 then Some (ApiException 409) else None))))))) = 3
   \<and> pods (snd (start_pod ''job'' ''python:3'' ''sleep infinity'' None None None 5 1200 0
        [Event (Some ''Pending'') 1, Event (Some ''Pending'') 2, Event (Some ''Running'') 3]
        (KubernetesManager_init ''default'' None True
           (idle_api (\<lambda>i. if i = 1 \<or> i = 2 then Some (ApiException 409) else None))))) ''job''
     = Some (create_pod_spec ''job'' ''python:3'' ''sleep infinity'' None None None)"
proof -
  let ?m = "KubernetesManager_init ''default'' None True
        (idle_api (\<lambda>i. if i = 1 \<or> i = 2 then Some (ApiException 409) else None))"
  let ?R = "start_pod ''job'' ''python:3'' ''sleep infinity'' None None None 5 1200 0
        [Event (Some ''Pending'') 1, Event (Some ''Pending'') 2, Event (Some ''Running'') 3] ?m"
  have name: "metadata_name (create_pod_spec ''job'' ''python:3'' ''sleep infinity'' None None None) = ''job''"
    by (simp add: create_pod_spec_def)
  have up: "[1 .. 5 :: int] = [1, 2, 3, 4, 5]"
    by (simp add: upto_rec1)
  have res: "fst ?R = Inr (create_pod_spec ''job'' ''python:3'' ''sleep infinity'' None None None)"
    and sl: "new_sleeps ?m (snd ?R) = [5, 10]"
    and cr: "length (filter is_create (new_api_calls ?m (snd ?R))) = 3"
    by (simp_all add: k8s_sim_defs name up)
  from pod_creation_retry [of "''job''" "''python:3''" "''sleep infinity''" None None None 5 1200 0
      "[Event (Some ''Pending'') 1, Event (Some ''Pending'') 2, Event (Some ''Running'') 3]" ?m]
  have "\<forall>pod. fst ?R = Inr pod \<longrightarrow> pods (snd ?R) = (pods ?m)(''job'' \<mapsto> pod)"
    unfolding Let_def by blast
  with res have "pods (snd ?R) ''job''
      = Some (create_pod_spec ''job'' ''python:3'' ''sleep infinity'' None None None)"
    by simp
  with sl cr show ?thesis by blast
qed

section \<open>The readiness wait\<close>

text \<open>
  An item of the stream that lets the loop go on: an event received within the deadline
  whose phase is neither \<^verbatim>\<open>Running\<close> nor terminal.
\<close>

fun undecided :: "int \<Rightarrow> real \<Rightarrow> stream_item \<Rightarrow> bool" where
  "undecided timeout start_time (Event phase now) =
     (\<not> now - start_time > of_int timeout \<and> phase \<noteq> Some ''Running''
      \<and> phase \<notin> Some ` set [''Failed'', ''Succeeded'', ''Unknown''])"
| "undecided timeout start_time (StreamError e) = False"

lemma wait_loop_skip:
  "\<forall>ev \<in> set pre. undecided timeout start_time ev \<Longrightarrow>
   wait_loop pod_name timeout start_time (pre @ rest) = wait_loop pod_name timeout start_time rest"
proof (induction pre)
  case Nil
  show ?case by simp
next
  case (Cons ev pre)
  then show ?case by (cases ev) simp_all
qed

lemma wait_running:
  assumes "\<forall>ev \<in> set pre. undecided timeout start_time ev"
    and "now - start_time \<le> of_int timeout"
  shows "wait_for_pod_running pod_name timeout start_time (pre @ Event (Some ''Running'') now # rest)
           = (Inr (), True)"
  using assms by (simp add: wait_for_pod_running_def wait_loop_skip)

lemma wait_terminal:
  assumes "\<forall>ev \<in> set pre. undecided timeout start_time ev"
    and "now - start_time \<le> of_int timeout"
    and "phase \<in> set [''Failed'', ''Succeeded'', ''Unknown'']"
  shows "wait_for_pod_running pod_name timeout start_time (pre @ Event (Some phase) now # rest)
           = (Inl (RuntimeError (''Pod '' @ quoted pod_name @ '' entered terminal phase ''
                @ quoted phase)), True)"
  using assms by (auto simp: wait_for_pod_running_def wait_loop_skip)

lemma wait_deadline:
  assumes "\<forall>ev \<in> set pre. undecided timeout start_time ev"
    and "now - start_time > of_int timeout"
  shows "wait_for_pod_running pod_name timeout start_time (pre @ Event phase now # rest)
           = (Inl (RuntimeError (''Pod '' @ quoted pod_name @ '' timed out after ''
                @ str_int timeout @ '' seconds'')), True)"
  using assms by (simp add: wait_for_pod_running_def wait_loop_skip)

lemma wait_stream_error:
  assumes "\<forall>ev \<in> set pre. undecided timeout start_time ev"
  shows "wait_for_pod_running pod_name timeout start_time (pre @ StreamError e # rest) = (Inl e, False)"
  using assms by (simp add: wait_for_pod_running_def wait_loop_skip)

lemma wait_stream_end:
  assumes "\<forall>ev \<in> set events. undecided timeout start_time ev"
  shows "wait_for_pod_running pod_name timeout start_time events = (Inr (), False)"
  using assms wait_loop_skip [of events timeout start_time pod_name "[]"]
  by (simp add: wait_for_pod_running_def)

text \<open>
  Claim C2. The three lemmas \<open>wait_running\<close>, \<open>wait_terminal\<close> and \<open>wait_deadline\<close> are the
  parts of the claim that hold: a \<^verbatim>\<open>Running\<close> event within the deadline ends the wait
  with success, a terminal phase within the deadline and any event received after the
  deadline end it with the respective error, and in all three the watch is stopped. The
  claim fails where the stream ends first (\<open>wait_stream_end\<close>): the loop falls through,
  the wait returns without an error and without stopping the watch, and \<^verbatim>\<open>start_pod\<close>
  registers and returns a pod that never was \<^verbatim>\<open>Running\<close>. The theorem evaluates the
  code on such a stream: two \<^verbatim>\<open>Pending\<close> events, 1 and 600 seconds after the start, with a
  timeout of 1200 seconds.
\<close>

theorem wait_for_pod_running_stream_end:
  "wait_for_pod_running ''job'' 1200 0 [Event (Some ''Pending'') 1, Event (Some ''Pending'') 600]
     = (Inr (), False)
   \<and> fst (start_pod ''job'' ''python:3'' ''sleep infinity'' None None None 5 1200 0
        [Event (Some ''Pending'') 1, Event (Some ''Pending'') 600]
        (KubernetesManager_init ''default'' None True (idle_api (\<lambda>i. None))))
     = Inr (create_pod_spec ''job'' ''python:3'' ''sleep infinity'' None None None)
   \<and> pods (snd (start_pod ''job'' ''python:3'' ''sleep infinity'' None None None 5 1200 0
        [Event (Some ''Pending'') 1, Event (Some ''Pending'') 600]
        (KubernetesManager_init ''default'' None True (idle_api (\<lambda>i. None))))) ''job''
     = Some (create_pod_spec ''job'' ''python:3'' ''sleep infinity'' None None None)"
proof -
  have up: "[1 .. 5 :: int] = [1, 2, 3, 4, 5]"
    by (simp add: upto_rec1)
  have name: "metadata_name (create_pod_spec ''job'' ''python:3'' ''sleep infinity'' None None None) = ''job''"
    by (simp add: create_pod_spec_def)
  show ?thesis
    by (simp add: k8s_sim_defs up name)
qed

text \<open>
  Claim C3. The retry and backoff parts of the claim hold (\<open>pod_creation_retry\<close>). Its
  last part, that the pod is registered only after the readiness wait has seen it
  \<^verbatim>\<open>Running\<close>, fails with the wait: \<^verbatim>\<open>start_pod\<close> registers whenever the wait returns,
  and the wait also returns when the stream ends. The theorem evaluates the code where
  the API server answers the first two creation calls with status 409 and the watch
  yields two \<^verbatim>\<open>Pending\<close> events and ends: three creation calls, delays 5 and 10, no
  event of the stream is \<^verbatim>\<open>Running\<close>, and the pod is registered and returned.
\<close>

theorem start_pod_registers_pod_never_running:
  "list_all (undecided 1200 0) [Event (Some ''Pending'') 1, Event (Some ''Pending'') 600]
   \<and> fst (start_pod ''job'' ''python:3'' ''sleep infinity'' None None None 5 1200 0
        [Event (Some ''Pending'') 1, Event (Some ''Pending'') 600]
        (KubernetesManager_init ''default'' None True
           (idle_api (\<lambda>i. if i = 1 \<or> i = 2 then Some (ApiException 409) else None))))
     = Inr (create_pod_spec ''job'' ''python:3'' ''sleep infinity'' None None None)
   \<and> pods (snd (start_pod ''job'' ''python:3'' ''sleep infinity'' None None None 5 1200 0
        [Event (Some ''Pending'') 1, Event (Some ''Pending'') 600]
        (KubernetesManager_init ''default'' None True
           (idle_api (\<lambda>i. if i = 1 \<or> i = 2 then Some (ApiException 409) else None))))) ''job''
     = Some (create_pod_spec ''job'' ''python:3'' ''sleep infinity'' None None None)
   \<and> new_sleeps
        (KubernetesManager_init ''default'' None True
           (idle_api (\<lambda>i. if i = 1 \<or> i = 2 then Some (ApiException 409) else None)))
        (snd (start_pod ''job'' ''python:3'' ''sleep infinity'' None None None 5 1200 0
           [Event (Some ''Pending'') 1, Event (Some ''Pending'') 600]
           (KubernetesManager_init ''default'' None True
              (idle_api (\<lambda>i. if i = 1 \<or> i = 2 then Some (ApiException 409) else None)))))
     = [5, 10]
   \<and> length (filter is_create (new_api_calls
        (KubernetesManager_init ''default'' None True
           (idle_api (\<lambda>i. if i = 1 \<or> i = 2 then Some (ApiException 409) else None)))
        (snd (start_pod ''job'' ''python:3'' ''sleep infinity'' None None None 5 1200 0
           [Event (Some ''Pending'') 1, Event (Some ''Pending'') 600]
           (KubernetesManager_init ''default'' None True
              (idle_api (\<lambda>i. if i = 1 \<or> i = 2 then Some (ApiException 409) else None))))))) = 3"
proof -
  have up: "[1 .. 5 :: int] = [1, 2, 3, 4, 5]"
    by (simp add: upto_rec1)
  have name: "metadata_name (create_pod_spec ''job'' ''python:3'' ''sleep infinity'' None None None) = ''job''"
    by (simp add: create_pod_spec_def)
  show ?thesis
    by (simp add: k8s_sim_defs up name)
qed

section \<open>Starting twice under one name\<close>

lemma containers_list_Inr:
  "containers_list name eng = (Inr found, eng') \<Longrightarrow>
   found = filter (\<lambda>c. name_filter eng name (c_name c)) (engine_containers eng)
   \<and> engine_containers eng' = engine_containers eng \<and> name_filter eng' = name_filter eng"
  by (auto simp: containers_list_def engine_request_def Let_def split: option.splits)

lemma container_start_Inr:
  "container_start c eng = (Inr u, eng') \<Longrightarrow>
   map c_name (engine_containers eng') = map c_name (engine_containers eng)
   \<and> name_filter eng' = name_filter eng"
  by (auto simp: container_start_def engine_request_def Let_def split: option.splits if_splits)

lemma containers_run_Inr:
  "containers_run img command name env eng = (Inr c, eng') \<Longrightarrow>
   c_name c = name \<and> c \<in> set (engine_containers eng') \<and> name_filter eng' = name_filter eng"
  by (auto simp: containers_run_def engine_request_def Let_def split: option.splits if_splits)

lemma start_container_target_exists:
  assumes nf: "name_filter (client self) name name"
    and ok: "start_container img command name environment self = (Inr c1, self1)"
  shows "\<exists>c \<in> set (engine_containers (client self1)). name_filter (client self1) name (c_name c)"
proof -
  obtain r eng where l: "containers_list name (client self) = (r, eng)"
    by (cases "containers_list name (client self)")
  from ok l obtain found where r: "r = Inr found"
    by (cases r) (auto simp: start_container_def)
  note li = containers_list_Inr [OF l [unfolded r]]
  show ?thesis
  proof (cases found)
    case Nil
    let ?env = "case environment of
                  Some user \<Rightarrow> if user \<noteq> [] then dict_update [(''PATH'', DEFAULT_DOCKER_PATH)] user
                               else [(''PATH'', DEFAULT_DOCKER_PATH)]
                | None \<Rightarrow> [(''PATH'', DEFAULT_DOCKER_PATH)]"
    obtain r' eng' where run: "containers_run img command name ?env eng = (r', eng')"
      by (cases "containers_run img command name ?env eng")
    from ok l r Nil run obtain c where r': "r' = Inr c" and s1: "client self1 = eng'"
      by (cases r') (auto simp: start_container_def Let_def)
    from containers_run_Inr [OF run [unfolded r']] li nf s1 show ?thesis
      by auto
  next
    case (Cons c cs)
    with li have "c \<in> set (filter (\<lambda>c. name_filter (client self) name (c_name c))
        (engine_containers (client self)))"
      by (metis list.set_intros(1))
    with li have cin: "c \<in> set (engine_containers eng)"
      and cm: "name_filter (client self) name (c_name c)"
      by simp_all
    show ?thesis
    proof (cases "c_status c \<noteq> ''running''")
      case False
      with ok l r Cons have "client self1 = eng"
        by (auto simp: start_container_def)
      with cin cm li show ?thesis by auto
    next
      case True
      obtain r' eng' where st: "container_start c eng = (r', eng')"
        by (cases "container_start c eng")
      from ok l r Cons True st obtain u where r': "r' = Inr u" and s1: "client self1 = eng'"
        by (cases r') (auto simp: start_container_def)
      note si = container_start_Inr [OF st [unfolded r']]
      from cin have "c_name c \<in> set (map c_name (engine_containers eng))"
        by simp
      with si have "c_name c \<in> set (map c_name (engine_containers eng'))"
        by simp
      then obtain c' where c': "c' \<in> set (engine_containers eng')" and n': "c_name c' = c_name c"
        by auto
      from cm n' si li have "name_filter eng' name (c_name c')"
        by simp
      with c' s1 show ?thesis
        by blast
    qed
  qed
qed

lemma start_container_calls_prefix:
  "engine_calls (client (snd (start_container img command name environment self)))
     = engine_calls (client self)
       @ new_engine_calls self (snd (start_container img command name environment self))"
  by (simp add: start_container_calls new_engine_calls_def)

lemma log_chain:
  "ys = xs @ a \<Longrightarrow> zs = ys @ b \<Longrightarrow> drop (length xs) zs = a @ b"
  by simp

lemma start_container_runs_once:
  "length (filter is_run (new_engine_calls self
      (snd (start_container img command name environment self)))) \<le> 1"
  unfolding start_container_new_calls
  by (simp split: sum.splits list.splits)

text \<open>
  Between two calls of the manager the engine's containers go on living: a container
  exits when its command ends, or is started again from outside. \<open>status_now\<close> gives
  the status each container has when the second call is made.
\<close>

definition statuses_changed :: "(Container \<Rightarrow> string) \<Rightarrow> DockerManager \<Rightarrow> DockerManager" where
  "statuses_changed status_now self =
     self\<lparr>client := (client self)\<lparr>engine_containers :=
       map (\<lambda>c. c\<lparr>c_status := status_now c\<rparr>) (engine_containers (client self))\<rparr>\<rparr>"

lemma container_start_running:
  assumes "container_start c eng = (Inr u, eng')"
  shows "\<exists>x \<in> set (engine_containers eng'). c_id x = c_id c \<and> c_status x = ''running''"
proof -
  let ?f = "\<lambda>x. if c_id x = c_id c then x\<lparr>c_status := ''running''\<rparr> else x"
  from assms have there: "c_id c \<in> c_id ` set (engine_containers eng)"
    and after: "engine_containers eng' = map ?f (engine_containers eng)"
    by (auto simp: container_start_def engine_request_def Let_def split: option.splits if_splits)
  from there obtain x where x: "x \<in> set (engine_containers eng)" "c_id x = c_id c"
    by auto
  then have "?f x \<in> set (engine_containers eng')"
    unfolding after by (simp del: if_split)
  moreover have "c_id (?f x) = c_id c \<and> c_status (?f x) = ''running''"
    using x by simp
  ultimately show ?thesis
    by blast
qed

lemma start_container_existing:
  assumes ex: "\<exists>c \<in> set (engine_containers (client self)). name_filter (client self) name (c_name c)"
  shows "filter is_run (new_engine_calls self
            (snd (start_container img command name environment self))) = []"
    and "fst (start_container img command name environment self) = Inr c2 \<Longrightarrow>
           c2 \<in> set (engine_containers (client self))
         \<and> name_filter (client self) name (c_name c2)
         \<and> new_engine_calls self (snd (start_container img command name environment self))
             = ContainersList name
               # (if c_status c2 \<noteq> ''running'' then [ContainerStart (c_id c2)] else [])
         \<and> containers (snd (start_container img command name environment self)) name = Some c2
         \<and> (\<exists>c \<in> set (engine_containers
                 (client (snd (start_container img command name environment self)))).
               c_id c = c_id c2 \<and> c_status c = ''running'')"
proof -
  let ?second = "start_container img command name environment self"
  from ex obtain c where
    c: "c \<in> set (engine_containers (client self))" "name_filter (client self) name (c_name c)"
    by blast
  obtain r eng where l: "containers_list name (client self) = (r, eng)"
    by (cases "containers_list name (client self)")
  have found: "r = Inr found \<Longrightarrow> found \<noteq> []
      \<and> set found \<subseteq> {c \<in> set (engine_containers (client self)).
            name_filter (client self) name (c_name c)}
      \<and> engine_containers eng = engine_containers (client self)" for found
  proof -
    assume "r = Inr found"
    with l have "found = filter (\<lambda>c. name_filter (client self) name (c_name c))
        (engine_containers (client self))
        \<and> engine_containers eng = engine_containers (client self)"
      using containers_list_Inr by blast
    with c show ?thesis
      by (auto simp: filter_empty_conv)
  qed
  show "filter is_run (new_engine_calls self (snd ?second)) = []"
    unfolding start_container_new_calls using l found
    by (cases r) (auto split: list.splits)
  show "c2 \<in> set (engine_containers (client self))
         \<and> name_filter (client self) name (c_name c2)
         \<and> new_engine_calls self (snd ?second)
             = ContainersList name
               # (if c_status c2 \<noteq> ''running'' then [ContainerStart (c_id c2)] else [])
         \<and> containers (snd ?second) name = Some c2
         \<and> (\<exists>c \<in> set (engine_containers (client (snd ?second))).
               c_id c = c_id c2 \<and> c_status c = ''running'')"
    if ok2: "fst ?second = Inr c2"
  proof -
    from ok2 l obtain fnd where r: "r = Inr fnd"
      by (cases r) (auto simp: start_container_def)
    from found [OF r] obtain c' cs where fnd: "fnd = c' # cs"
      by (cases fnd) auto
    from found [OF r] fnd have c'in: "c' \<in> set (engine_containers (client self))"
      and c'm: "name_filter (client self) name (c_name c')"
      and same: "engine_containers eng = engine_containers (client self)"
      by auto
    have fl: "fst (containers_list name (client self)) = Inr (c' # cs)"
      using l r fnd by simp
    have res: "c2 = c' \<and> containers (snd ?second) name = Some c'
        \<and> (\<exists>c \<in> set (engine_containers (client (snd ?second))).
               c_id c = c_id c' \<and> c_status c = ''running'')"
    proof (cases "c_status c' \<noteq> ''running''")
      case False
      with ok2 l r fnd c'in same show ?thesis
        by (auto simp: start_container_def)
    next
      case True
      obtain r' eng' where st: "container_start c' eng = (r', eng')"
        by (cases "container_start c' eng")
      from ok2 l r fnd True st obtain u where r': "r' = Inr u"
        by (cases r') (auto simp: start_container_def)
      from st r' have "\<exists>c \<in> set (engine_containers eng').
          c_id c = c_id c' \<and> c_status c = ''running''"
        using container_start_running [of c' eng u eng'] by simp
      with ok2 l r fnd True st r' show ?thesis
        by (auto simp: start_container_def)
    qed
    have "new_engine_calls self (snd ?second)
        = ContainersList name
          # (if c_status c' \<noteq> ''running'' then [ContainerStart (c_id c')] else [])"
      unfolding start_container_new_calls fl by simp
    with res c'in c'm show ?thesis
      by simp
  qed
qed

lemma statuses_changed_simps:
  "engine_calls (client (statuses_changed status_now self)) = engine_calls (client self)"
  "name_filter (client (statuses_changed status_now self)) = name_filter (client self)"
  "c_name ` set (engine_containers (client (statuses_changed status_now self)))
     = c_name ` set (engine_containers (client self))"
  by (auto simp: statuses_changed_def image_iff)

lemma docker_second_start:
  assumes nf: "name_filter (client self) name name"
    and ok: "start_container img command name environment self = (Inr c1, self1)"
  shows "filter is_run (new_engine_calls (statuses_changed status_now self1)
            (snd (start_container img command' name environment'
               (statuses_changed status_now self1)))) = []"
    and "length (filter is_run (new_engine_calls self
            (snd (start_container img command' name environment'
               (statuses_changed status_now self1))))) \<le> 1"
    and "\<exists>c \<in> set (engine_containers (client (statuses_changed status_now self1))).
           name_filter (client (statuses_changed status_now self1)) name (c_name c)"
proof -
  let ?mid = "statuses_changed status_now self1"
  let ?second = "start_container img command' name environment' ?mid"
  from start_container_target_exists [OF nf ok] obtain c where
    c: "c \<in> set (engine_containers (client self1))" "name_filter (client self1) name (c_name c)"
    by blast
  from c(1) have "c_name c \<in> c_name ` set (engine_containers (client ?mid))"
    by (simp add: statuses_changed_simps)
  then obtain c' where c': "c' \<in> set (engine_containers (client ?mid))"
    and n': "c_name c' = c_name c"
    by auto
  from c(2) n' have "name_filter (client ?mid) name (c_name c')"
    by (simp add: statuses_changed_simps)
  with c' show ex: "\<exists>c \<in> set (engine_containers (client ?mid)).
      name_filter (client ?mid) name (c_name c)"
    by blast
  from start_container_existing(1) [OF ex]
  show no_run: "filter is_run (new_engine_calls ?mid (snd ?second)) = []" .
  have "self1 = snd (start_container img command name environment self)"
    using ok by simp
  then have "engine_calls (client self1) = engine_calls (client self)
      @ new_engine_calls self self1"
    using start_container_calls_prefix [of img command name environment self] by simp
  then have p1: "engine_calls (client ?mid) = engine_calls (client self)
      @ new_engine_calls self self1"
    by (simp add: statuses_changed_simps)
  have p2: "engine_calls (client (snd ?second)) = engine_calls (client ?mid)
      @ new_engine_calls ?mid (snd ?second)"
    by (rule start_container_calls_prefix)
  have "new_engine_calls self (snd ?second)
      = drop (length (engine_calls (client self))) (engine_calls (client (snd ?second)))"
    by (simp add: new_engine_calls_def)
  also have "\<dots> = new_engine_calls self self1 @ new_engine_calls ?mid (snd ?second)"
    by (rule log_chain [OF p1 p2])
  finally have "new_engine_calls self (snd ?second)
      = new_engine_calls self self1 @ new_engine_calls ?mid (snd ?second)" .
  moreover have "length (filter is_run (new_engine_calls self self1)) \<le> 1"
    using start_container_runs_once [of self img command name environment] ok by simp
  ultimately show "length (filter is_run (new_engine_calls self (snd ?second))) \<le> 1"
    using no_run by simp
qed

lemma metadata_name_create_pod_spec:
  "metadata_name (create_pod_spec name img command environment resources node_selector) = name"
  by (simp add: create_pod_spec_def Let_def)

lemma create_namespaced_pod_Inr:
  "create_namespaced_pod ns body api = (Inr pod, api') \<Longrightarrow>
   api_pods api' (metadata_name body) = Some pod"
  by (auto simp: create_namespaced_pod_def api_request_def Let_def
      split: option.splits prod.splits)

lemma create_loop_break:
  "fst (create_loop N body xs b self) = Break pod \<Longrightarrow>
   api_pods (api_client (snd (create_loop N body xs b self))) (metadata_name body) = Some pod"
proof (induction xs arbitrary: b self)
  case Nil
  then show ?case by simp
next
  case (Cons attempt rest)
  obtain r api where cr: "create_namespaced_pod (namespace self) body (api_client self) = (r, api)"
    by (cases "create_namespaced_pod (namespace self) body (api_client self)")
  show ?case
  proof (cases r)
    case (Inr p)
    with cr Cons.prems create_namespaced_pod_Inr [of "namespace self" body "api_client self" p api]
    show ?thesis by simp
  next
    case (Inl e)
    show ?thesis
    proof (cases "\<exists>status. e = ApiException status
        \<and> status \<in> set [409, 429, 500, 503] \<and> attempt < N")
      case False
      with cr Inl Cons.prems show ?thesis
        by (auto split: exn.splits if_splits)
    next
      case True
      then obtain status where e: "e = ApiException status"
        and st: "status \<in> set [409, 429, 500, 503]" and att: "attempt < N"
        by blast
      let ?self' = "self\<lparr>api_client := api, slept := slept self @ [b]\<rparr>"
      have res: "create_loop N body (attempt # rest) b self
          = create_loop N body rest (min (b * 2) 60) ?self'"
        using cr Inl e st att by simp
      from Cons.prems Cons.IH [of "min (b * 2) 60" ?self'] show ?thesis
        unfolding res by simp
    qed
  qed
qed

lemma read_namespaced_pod_cases:
  "read_namespaced_pod name ns api = (r, api') \<Longrightarrow>
   api_pods api' = api_pods api
   \<and> (case api_faults api (length (api_calls api)) of
        Some e \<Rightarrow> r = Inl e
      | None \<Rightarrow> (case api_pods api name of Some pod \<Rightarrow> r = Inr pod
                 | None \<Rightarrow> r = Inl (ApiException 404)))"
  by (auto simp: read_namespaced_pod_def api_request_def Let_def
      split: option.splits prod.splits)

lemma start_pod_faults:
  "api_faults (api_client (snd (start_pod name img command environment resources node_selector
      max_retries timeout start_time events self))) = api_faults (api_client self)"
proof -
  obtain r0 api0 where rd: "read_namespaced_pod name (namespace self) (api_client self) = (r0, api0)"
    by (cases "read_namespaced_pod name (namespace self) (api_client self)")
  then have f0: "api_faults api0 = api_faults (api_client self)"
    using read_namespaced_pod_faults [of name "namespace self" "api_client self"] by simp
  let ?L = "create_loop max_retries
      (create_pod_spec name img command environment resources node_selector)
      [1 .. max_retries] 5 (self\<lparr>api_client := api0\<rparr>)"
  have "api_faults (api_client (snd ?L)) = api_faults (api_client self)"
    using create_loop_effects [of max_retries _ "[1 .. max_retries]" 5 "self\<lparr>api_client := api0\<rparr>"] f0
    by auto
  with rd f0 show ?thesis
    by (auto simp: start_pod_def Let_def split: sum.splits prod.splits loop_exit.splits)
qed

lemma start_pod_target_exists:
  assumes ok: "start_pod name img command environment resources node_selector
      max_retries timeout start_time events self = (Inr pod1, self1)"
  shows "api_pods (api_client self1) name = Some pod1"
proof -
  obtain r0 api0 where rd: "read_namespaced_pod name (namespace self) (api_client self) = (r0, api0)"
    by (cases "read_namespaced_pod name (namespace self) (api_client self)")
  note rc = read_namespaced_pod_cases [OF rd]
  let ?body = "create_pod_spec name img command environment resources node_selector"
  let ?L = "create_loop max_retries ?body [1 .. max_retries] 5 (self\<lparr>api_client := api0\<rparr>)"
  show ?thesis
  proof (cases r0)
    case (Inr pod)
    with ok rd have "pod = pod1" and "api_client self1 = api0"
      by (auto simp: start_pod_def)
    with rc Inr show ?thesis
      by (auto split: option.splits)
  next
    case (Inl e)
    with ok rd have e: "e = ApiException 404"
      by (auto simp: start_pod_def split: if_splits)
    from ok rd Inl e have "fst ?L = Break pod1 \<and> api_client self1 = api_client (snd ?L)"
      by (auto simp: start_pod_def Let_def split: prod.splits loop_exit.splits sum.splits)
    with create_loop_break [of max_retries ?body "[1 .. max_retries]" 5
        "self\<lparr>api_client := api0\<rparr>" pod1]
    show ?thesis
      by (simp add: metadata_name_create_pod_spec)
  qed
qed

lemma successes_at_most_one:
  assumes "\<forall>c \<in> set (take n calls). retryable c"
    and "if calls = [] then n = 0 else length calls = Suc n"
  shows "length (filter (\<lambda>c. is_create c \<and> raised_by c = None) calls) \<le> 1"
proof -
  have "filter (\<lambda>c. is_create c \<and> raised_by c = None) (take n calls) = []"
    using assms(1) by (auto simp: filter_empty_conv retryable_def)
  moreover have "length (drop n calls) \<le> 1"
    using assms(2) by (cases "calls = []") simp_all
  moreover have "calls = take n calls @ drop n calls"
    by simp
  ultimately have "filter (\<lambda>c. is_create c \<and> raised_by c = None) calls
      = filter (\<lambda>c. is_create c \<and> raised_by c = None) (drop n calls)"
    by (metis append_Nil filter_append)
  moreover have "length (filter (\<lambda>c. is_create c \<and> raised_by c = None) (drop n calls))
      \<le> length (drop n calls)"
    by (rule length_filter_le)
  ultimately show ?thesis
    using \<open>length (drop n calls) \<le> 1\<close> by simp
qed

lemma k8s_second_start:
  assumes nf: "\<forall>i. api_faults (api_client self) i \<noteq> Some (ApiException 404)"
    and ok: "start_pod name img command environment resources node_selector
      max_retries timeout start_time events self = (Inr pod1, self1)"
  shows "filter is_create (new_api_calls self1
            (snd (start_pod name img command' environment' resources' node_selector'
               max_retries' timeout' start_time' events' self1))) = []"
    and "length (filter (\<lambda>c. is_create c \<and> raised_by c = None) (new_api_calls self
            (snd (start_pod name img command' environment' resources' node_selector'
               max_retries' timeout' start_time' events' self1)))) \<le> 1"
    and "fst (start_pod name img command' environment' resources' node_selector'
               max_retries' timeout' start_time' events' self1) = Inr pod2 \<Longrightarrow>
           pod2 = pod1
         \<and> pods (snd (start_pod name img command' environment' resources' node_selector'
               max_retries' timeout' start_time' events' self1)) name = Some pod1"
proof -
  let ?second = "start_pod name img command' environment' resources' node_selector'
               max_retries' timeout' start_time' events' self1"
  have s1: "self1 = snd (start_pod name img command environment resources node_selector
      max_retries timeout start_time events self)"
    using ok by simp
  have faults: "api_faults (api_client self1) = api_faults (api_client self)"
    unfolding s1 by (rule start_pod_faults)
  have there: "api_pods (api_client self1) name = Some pod1"
    using ok by (rule start_pod_target_exists)
  obtain r0 api0 where rd: "read_namespaced_pod name (namespace self1) (api_client self1) = (r0, api0)"
    by (cases "read_namespaced_pod name (namespace self1) (api_client self1)")
  from read_namespaced_pod_cases [OF rd] there faults nf
  have r0: "r0 \<noteq> Inl (ApiException 404)" and r0': "r0 = Inr pod2 \<Longrightarrow> pod2 = pod1" for pod2
    by (auto split: option.splits)
  let ?rd = "ReadPod name (namespace self1) (case r0 of Inl e \<Rightarrow> Some e | Inr x \<Rightarrow> None)"
  from rd have calls0: "api_calls api0 = api_calls (api_client self1) @ [?rd]"
    using read_namespaced_pod_calls [of name "namespace self1" "api_client self1"] by simp
  have R: "?second = (case r0 of
        Inr pod \<Rightarrow> (Inr pod, self1\<lparr>api_client := api0, pods := (pods self1)(name \<mapsto> pod)\<rparr>)
      | Inl e \<Rightarrow> (Inl e, self1\<lparr>api_client := api0\<rparr>))"
    using rd r0 by (simp add: start_pod_def split: sum.splits)
  have p2: "api_calls (api_client (snd ?second)) = api_calls (api_client self1) @ [?rd]"
    unfolding R using calls0 by (simp split: sum.splits)
  then have new2: "new_api_calls self1 (snd ?second) = [?rd]"
    by (simp add: new_api_calls_def)
  then show "filter is_create (new_api_calls self1 (snd ?second)) = []"
    by simp
  obtain n calls rd1 where
    e: "api_calls (api_client self1) = api_calls (api_client self) @ rd1 # calls"
      "\<not> is_create rd1"
      "if calls = [] then n = 0 else length calls = Suc n"
      "\<forall>c \<in> set (take n calls). retryable c"
    using start_pod_effects [of self name img command environment resources node_selector
        max_retries timeout start_time events] s1
    by auto
  have "new_api_calls self (snd ?second)
      = drop (length (api_calls (api_client self))) (api_calls (api_client (snd ?second)))"
    by (simp add: new_api_calls_def)
  also have "\<dots> = (rd1 # calls) @ [?rd]"
    by (rule log_chain [OF e(1) p2])
  finally have "filter (\<lambda>c. is_create c \<and> raised_by c = None) (new_api_calls self (snd ?second))
      = filter (\<lambda>c. is_create c \<and> raised_by c = None) calls"
    using e(2) by simp
  with successes_at_most_one [OF e(4) e(3)]
  show "length (filter (\<lambda>c. is_create c \<and> raised_by c = None)
      (new_api_calls self (snd ?second))) \<le> 1"
    by simp
  show "pod2 = pod1 \<and> pods (snd ?second) name = Some pod1"
    if "fst ?second = Inr pod2"
    using that r0' unfolding R by (cases r0) auto
qed

lemma create_namespaced_pod_result:
  assumes "create_namespaced_pod ns body api = (r, api')"
  shows "case r of Inr pod \<Rightarrow> api_pods api' (metadata_name body) = Some pod
                | Inl e \<Rightarrow> api_pods api' = api_pods api"
    and "api_pods api (metadata_name body) \<noteq> None \<Longrightarrow> \<exists>e. r = Inl e"
  using assms
  by (auto simp: create_namespaced_pod_def api_request_def Let_def
      split: option.splits prod.splits sum.splits)

lemma create_loop_successes:
  "\<exists>calls.
     api_calls (api_client (snd (create_loop N body xs b self))) = api_calls (api_client self) @ calls
   \<and> ((\<exists>c \<in> set calls. raised_by c = None) \<longrightarrow>
        api_pods (api_client (snd (create_loop N body xs b self))) (metadata_name body) \<noteq> None)
   \<and> (api_pods (api_client self) (metadata_name body) \<noteq> None \<longrightarrow>
        (\<forall>c \<in> set calls. raised_by c \<noteq> None)
        \<and> api_pods (api_client (snd (create_loop N body xs b self))) (metadata_name body) \<noteq> None)"
proof (induction xs arbitrary: b self)
  case Nil
  show ?case
    by (rule exI [of _ "[]"]) simp
next
  case (Cons attempt rest)
  obtain r api where cr: "create_namespaced_pod (namespace self) body (api_client self) = (r, api)"
    by (cases "create_namespaced_pod (namespace self) body (api_client self)")
  let ?call = "CreatePod (namespace self) body (case r of Inl e \<Rightarrow> Some e | Inr x \<Rightarrow> None)"
  from cr have calls: "api_calls api = api_calls (api_client self) @ [?call]"
    using create_namespaced_pod_calls [of "namespace self" body "api_client self"] by simp
  note res = create_namespaced_pod_result [OF cr]
  let ?retry = "\<exists>status. r = Inl (ApiException status)
      \<and> status \<in> set [409, 429, 500, 503] \<and> attempt < N"
  show ?case
  proof (cases ?retry)
    case False
    then have L: "create_loop N body (attempt # rest) b self =
        ((case r of Inr pod \<Rightarrow> Break pod | Inl e \<Rightarrow> Reraise e), self\<lparr>api_client := api\<rparr>)"
      using cr by (auto split: sum.splits exn.splits)
    have blocked: "api_pods (api_client self) (metadata_name body) \<noteq> None \<longrightarrow> (\<exists>e. r = Inl e)"
      using res(2) by blast
    show ?thesis
      unfolding L using res(1) blocked
      by (intro exI [of _ "[?call]"]) (cases r; fastforce simp: calls)
  next
    case True
    then obtain status where r: "r = Inl (ApiException status)"
      and st: "status \<in> set [409, 429, 500, 503]" and att: "attempt < N"
      by blast
    let ?self' = "self\<lparr>api_client := api, slept := slept self @ [b]\<rparr>"
    let ?R = "create_loop N body rest (min (b * 2) 60) ?self'"
    have L: "create_loop N body (attempt # rest) b self = ?R"
      using cr r st att by simp
    from res(1) r have same: "api_pods api = api_pods (api_client self)"
      by simp
    from Cons.IH [of "min (b * 2) 60" ?self'] obtain calls' where
      ih: "api_calls (api_client (snd ?R)) = api_calls (api_client ?self') @ calls'"
        "(\<exists>c \<in> set calls'. raised_by c = None) \<longrightarrow>
           api_pods (api_client (snd ?R)) (metadata_name body) \<noteq> None"
        "api_pods (api_client ?self') (metadata_name body) \<noteq> None \<longrightarrow>
           (\<forall>c \<in> set calls'. raised_by c \<noteq> None)
           \<and> api_pods (api_client (snd ?R)) (metadata_name body) \<noteq> None"
      by blast
    have raised: "raised_by ?call \<noteq> None"
      using r by simp
    show ?thesis
      unfolding L
    proof (intro exI [of _ "?call # calls'"] conjI impI)
      show "api_calls (api_client (snd ?R)) = api_calls (api_client self) @ ?call # calls'"
        using ih(1) calls by simp
      show "api_pods (api_client (snd ?R)) (metadata_name body) \<noteq> None"
        if "\<exists>c \<in> set (?call # calls'). raised_by c = None"
        using that raised ih(2) by auto
      show "\<forall>c \<in> set (?call # calls'). raised_by c \<noteq> None"
        if "api_pods (api_client self) (metadata_name body) \<noteq> None"
        using that raised ih(3) same by auto
      show "api_pods (api_client (snd ?R)) (metadata_name body) \<noteq> None"
        if "api_pods (api_client self) (metadata_name body) \<noteq> None"
        using that ih(3) same by auto
    qed
  qed
qed

lemma start_pod_calls_prefix:
  "api_calls (api_client (snd (start_pod name img command environment resources node_selector
      max_retries timeout start_time events self)))
     = api_calls (api_client self)
       @ new_api_calls self (snd (start_pod name img command environment resources node_selector
           max_retries timeout start_time events self))"
  using start_pod_effects [of self name img command environment resources node_selector
      max_retries timeout start_time events]
  by (auto simp: new_api_calls_def)

lemma start_pod_one_success:
  "length (filter (\<lambda>c. is_create c \<and> raised_by c = None)
     (new_api_calls self (snd (start_pod name img command environment resources node_selector
        max_retries timeout start_time events self)))) \<le> 1"
proof -
  let ?R = "start_pod name img command environment resources node_selector
        max_retries timeout start_time events self"
  obtain n calls rd where
    e: "api_calls (api_client (snd ?R)) = api_calls (api_client self) @ rd # calls"
      "\<not> is_create rd"
      "if calls = [] then n = 0 else length calls = Suc n"
      "\<forall>c \<in> set (take n calls). retryable c"
    using start_pod_effects [of self name img command environment resources node_selector
        max_retries timeout start_time events]
    by auto
  from e(1) have "new_api_calls self (snd ?R) = rd # calls"
    by (simp add: new_api_calls_def)
  with e(2) successes_at_most_one [OF e(4) e(3)] show ?thesis
    by simp
qed

lemma start_pod_successes:
  "((\<exists>c \<in> set (new_api_calls self (snd (start_pod name img command environment resources
         node_selector max_retries timeout start_time events self))).
        is_create c \<and> raised_by c = None) \<longrightarrow>
      api_pods (api_client (snd (start_pod name img command environment resources
         node_selector max_retries timeout start_time events self))) name \<noteq> None)
   \<and> (api_pods (api_client self) name \<noteq> None \<longrightarrow>
      (\<forall>c \<in> set (new_api_calls self (snd (start_pod name img command environment resources
         node_selector max_retries timeout start_time events self))).
        is_create c \<longrightarrow> raised_by c \<noteq> None))"
proof -
  let ?R = "start_pod name img command environment resources node_selector
        max_retries timeout start_time events self"
  obtain r0 api0 where rd: "read_namespaced_pod name (namespace self) (api_client self) = (r0, api0)"
    by (cases "read_namespaced_pod name (namespace self) (api_client self)")
  let ?rd = "ReadPod name (namespace self) (case r0 of Inl e \<Rightarrow> Some e | Inr x \<Rightarrow> None)"
  from rd have calls0: "api_calls api0 = api_calls (api_client self) @ [?rd]"
    using read_namespaced_pod_calls [of name "namespace self" "api_client self"] by simp
  from read_namespaced_pod_cases [OF rd] have pods0: "api_pods api0 = api_pods (api_client self)"
    by simp
  let ?body = "create_pod_spec name img command environment resources node_selector"
  let ?self0 = "self\<lparr>api_client := api0\<rparr>"
  let ?L = "create_loop max_retries ?body [1 .. max_retries] 5 ?self0"
  show ?thesis
  proof (cases "r0 = Inl (ApiException 404)")
    case False
    then have R: "?R = (case r0 of
        Inr pod \<Rightarrow> (Inr pod, self\<lparr>api_client := api0, pods := (pods self)(name \<mapsto> pod)\<rparr>)
      | Inl e \<Rightarrow> (Inl e, self\<lparr>api_client := api0\<rparr>))"
      using rd by (simp add: start_pod_def split: sum.splits)
    have "new_api_calls self (snd ?R) = [?rd]"
      unfolding R using calls0 by (simp add: new_api_calls_def split: sum.splits)
    then show ?thesis
      by simp
  next
    case True
    obtain calls where
      L: "api_calls (api_client (snd ?L)) = api_calls (api_client ?self0) @ calls"
        "(\<exists>c \<in> set calls. raised_by c = None) \<longrightarrow>
           api_pods (api_client (snd ?L)) (metadata_name ?body) \<noteq> None"
        "api_pods (api_client ?self0) (metadata_name ?body) \<noteq> None \<longrightarrow>
           (\<forall>c \<in> set calls. raised_by c \<noteq> None)
           \<and> api_pods (api_client (snd ?L)) (metadata_name ?body) \<noteq> None"
      using create_loop_successes [of max_retries ?body "[1 .. max_retries]" 5 ?self0] by blast
    have client: "api_client (snd ?R) = api_client (snd ?L)"
      using rd True
      by (simp add: start_pod_def Let_def split: prod.splits loop_exit.splits sum.splits)
    have new: "new_api_calls self (snd ?R) = ?rd # calls"
      unfolding new_api_calls_def client L(1) using calls0 by simp
    show ?thesis
      unfolding new client using L(2,3) pods0
      by (auto simp: metadata_name_create_pod_spec)
  qed
qed

lemma k8s_two_starts_one_success:
  "length (filter (\<lambda>c. is_create c \<and> raised_by c = None) (new_api_calls self
     (snd (start_pod name img' command' environment' resources' node_selector'
             max_retries' timeout' start_time' events'
        (snd (start_pod name img command environment resources node_selector
                max_retries timeout start_time events self)))))) \<le> 1"
proof -
  let ?first = "start_pod name img command environment resources node_selector
                max_retries timeout start_time events self"
  let ?second = "start_pod name img' command' environment' resources' node_selector'
             max_retries' timeout' start_time' events' (snd ?first)"
  let ?ok = "\<lambda>c. is_create c \<and> raised_by c = None"
  have p1: "api_calls (api_client (snd ?first)) = api_calls (api_client self)
      @ new_api_calls self (snd ?first)"
    by (rule start_pod_calls_prefix)
  have p2: "api_calls (api_client (snd ?second)) = api_calls (api_client (snd ?first))
      @ new_api_calls (snd ?first) (snd ?second)"
    by (rule start_pod_calls_prefix)
  have "new_api_calls self (snd ?second)
      = drop (length (api_calls (api_client self))) (api_calls (api_client (snd ?second)))"
    by (simp add: new_api_calls_def)
  also have "\<dots> = new_api_calls self (snd ?first) @ new_api_calls (snd ?first) (snd ?second)"
    by (rule log_chain [OF p1 p2])
  finally have split: "filter ?ok (new_api_calls self (snd ?second))
      = filter ?ok (new_api_calls self (snd ?first))
        @ filter ?ok (new_api_calls (snd ?first) (snd ?second))"
    by simp
  show ?thesis
  proof (cases "\<exists>c \<in> set (new_api_calls self (snd ?first)). ?ok c")
    case True
    then have "api_pods (api_client (snd ?first)) name \<noteq> None"
      using start_pod_successes [of self name img command environment resources node_selector
          max_retries timeout start_time events]
      by blast
    then have "\<forall>c \<in> set (new_api_calls (snd ?first) (snd ?second)). is_create c \<longrightarrow> raised_by c \<noteq> None"
      using start_pod_successes [of "snd ?first" name img' command' environment' resources'
          node_selector' max_retries' timeout' start_time' events']
      by blast
    then have "filter ?ok (new_api_calls (snd ?first) (snd ?second)) = []"
      by (auto simp: filter_empty_conv)
    with split start_pod_one_success [of self name img command environment resources node_selector
        max_retries timeout start_time events]
    show ?thesis by simp
  next
    case False
    then have "filter ?ok (new_api_calls self (snd ?first)) = []"
      by (auto simp: filter_empty_conv)
    with split start_pod_one_success [of "snd ?first" name img' command' environment' resources'
        node_selector' max_retries' timeout' start_time' events']
    show ?thesis by simp
  qed
qed

text \<open>
  Claim C5, as amended. For every name and image, on both backends: when the first start
  returns a handle, a second start under the same name makes no creation call, whatever
  became of the containers' statuses in between. On the local backend (with an engine
  whose name filter matches a container of exactly that name) the second start, when it
  returns, returns a container the engine lists under the name, after exactly one start
  call on it if its status is not \<^verbatim>\<open>running\<close> and none otherwise, and the two starts
  together make at most one creation call. On the cluster backend at most one creation
  call succeeds over the two starts, whether the first returns or raises; and when the
  first returns a handle (with an API server that answers "not found" from its state
  only) the second, when it returns, returns the pod of the first.
\<close>

theorem second_start_reuses_target:
  "(let first = start_container img command name environment dm;
        between = statuses_changed status_now (snd first);
        second = start_container img command' name environment' between
    in name_filter (client dm) name name \<and> fst first = Inr handle \<longrightarrow>
         filter is_run (new_engine_calls between (snd second)) = []
       \<and> length (filter is_run (new_engine_calls dm (snd second))) \<le> 1
       \<and> (\<forall>c2. fst second = Inr c2 \<longrightarrow>
             c2 \<in> set (engine_containers (client between))
           \<and> name_filter (client between) name (c_name c2)
           \<and> new_engine_calls between (snd second)
               = ContainersList name
                 # (if c_status c2 \<noteq> ''running'' then [ContainerStart (c_id c2)] else [])
           \<and> containers (snd second) name = Some c2
           \<and> (\<exists>c \<in> set (engine_containers (client (snd second))).
                 c_id c = c_id c2 \<and> c_status c = ''running'')))
 \<and> (let first = start_pod name img command environment resources node_selector
                   max_retries timeout start_time events km;
        second = start_pod name img command' environment' resources' node_selector'
                   max_retries' timeout' start_time' events' (snd first)
    in length (filter (\<lambda>c. is_create c \<and> raised_by c = None)
            (new_api_calls km (snd second))) \<le> 1
     \<and> ((\<forall>i. api_faults (api_client km) i \<noteq> Some (ApiException 404)) \<and> fst first = Inr pod \<longrightarrow>
           filter is_create (new_api_calls (snd first) (snd second)) = []
         \<and> (\<forall>pod2. fst second = Inr pod2 \<longrightarrow> pod2 = pod \<and> pods (snd second) name = Some pod)))"
proof -
  have docker: "filter is_run (new_engine_calls between (snd second)) = []
       \<and> length (filter is_run (new_engine_calls dm (snd second))) \<le> 1
       \<and> (\<forall>c2. fst second = Inr c2 \<longrightarrow>
             c2 \<in> set (engine_containers (client between))
           \<and> name_filter (client between) name (c_name c2)
           \<and> new_engine_calls between (snd second)
               = ContainersList name
                 # (if c_status c2 \<noteq> ''running'' then [ContainerStart (c_id c2)] else [])
           \<and> containers (snd second) name = Some c2
           \<and> (\<exists>c \<in> set (engine_containers (client (snd second))).
                 c_id c = c_id c2 \<and> c_status c = ''running''))"
    if first: "first = start_container img command name environment dm"
      and between: "between = statuses_changed status_now (snd first)"
      and second: "second = start_container img command' name environment' between"
      and nf: "name_filter (client dm) name name" and ok: "fst first = Inr handle"
    for first between second
  proof -
    from first ok have ok': "start_container img command name environment dm = (Inr handle, snd first)"
      by (metis prod.collapse)
    note d = docker_second_start [OF nf ok']
    have "c2 \<in> set (engine_containers (client between))
           \<and> name_filter (client between) name (c_name c2)
           \<and> new_engine_calls between (snd second)
               = ContainersList name
                 # (if c_status c2 \<noteq> ''running'' then [ContainerStart (c_id c2)] else [])
           \<and> containers (snd second) name = Some c2
           \<and> (\<exists>c \<in> set (engine_containers (client (snd second))).
                 c_id c = c_id c2 \<and> c_status c = ''running'')"
      if "fst second = Inr c2" for c2
      using that start_container_existing(2) [OF d(3)]
      unfolding second between by blast
    with d(1,2) show ?thesis
      unfolding second between by blast
  qed
  have k8s: "filter is_create (new_api_calls (snd first) (snd second)) = []
       \<and> (\<forall>pod2. fst second = Inr pod2 \<longrightarrow> pod2 = pod \<and> pods (snd second) name = Some pod)"
    if first: "first = start_pod name img command environment resources node_selector
                   max_retries timeout start_time events km"
      and second: "second = start_pod name img command' environment' resources' node_selector'
                   max_retries' timeout' start_time' events' (snd first)"
      and nf: "\<forall>i. api_faults (api_client km) i \<noteq> Some (ApiException 404)"
      and ok: "fst first = Inr pod"
    for first second
  proof -
    from first ok have ok': "start_pod name img command environment resources node_selector
                   max_retries timeout start_time events km = (Inr pod, snd first)"
      by (metis prod.collapse)
    note k = k8s_second_start [OF nf ok']
    have "pod2 = pod \<and> pods (snd second) name = Some pod" if "fst second = Inr pod2" for pod2
      using that k(3) unfolding second by blast
    with k(1) show ?thesis
      unfolding second by blast
  qed
  have bound: "length (filter (\<lambda>c. is_create c \<and> raised_by c = None) (new_api_calls km
     (snd (start_pod name img command' environment' resources' node_selector'
             max_retries' timeout' start_time' events'
        (snd (start_pod name img command environment resources node_selector
                max_retries timeout start_time events km)))))) \<le> 1"
    by (rule k8s_two_starts_one_success)
  show ?thesis
    unfolding Let_def using docker k8s bound by blast
qed

theorem second_start_reuses_target_witness:
  "new_engine_calls
      (statuses_changed (\<lambda>c. ''exited'')
         (snd (start_container ''nginx:1'' ''/bin/bash'' ''web'' None (DockerManager_init idle_engine))))
      (snd (start_container ''nginx:1'' ''/bin/bash'' ''web'' None
         (statuses_changed (\<lambda>c. ''exited'')
            (snd (start_container ''nginx:1'' ''/bin/bash'' ''web'' None
               (DockerManager_init idle_engine))))))
     = [ContainersList ''web'', ContainerStart 1]
   \<and> filter is_create (new_api_calls
      (snd (start_pod ''job'' ''python:3'' ''sleep infinity'' None None None 5 1200 0
         [Event (Some ''Running'') 1]
         (KubernetesManager_init ''default'' None True (idle_api (\<lambda>i. None)))))
      (snd (start_pod ''job'' ''python:3'' ''sleep infinity'' None None None 5 1200 0
         [Event (Some ''Running'') 1]
         (snd (start_pod ''job'' ''python:3'' ''sleep infinity'' None None None 5 1200 0
            [Event (Some ''Running'') 1]
            (KubernetesManager_init ''default'' None True (idle_api (\<lambda>i. None)))))))) = []"
proof -
  let ?dm = "DockerManager_init idle_engine"
  let ?created = "\<lparr>c_id = 1, c_name = ''web'', c_image = ''nginx:1'', c_command = ''/bin/bash'',
      c_environment = [(''PATH'', DEFAULT_DOCKER_PATH)], c_status = ''running''\<rparr>"
  let ?exited = "\<lparr>c_id = 1, c_name = ''web'', c_image = ''nginx:1'', c_command = ''/bin/bash'',
      c_environment = [(''PATH'', DEFAULT_DOCKER_PATH)], c_status = ''exited''\<rparr>"
  let ?km = "KubernetesManager_init ''default'' None True (idle_api (\<lambda>i. None))"
  let ?pod = "create_pod_spec ''job'' ''python:3'' ''sleep infinity'' None None None"
  have up: "[1 .. 5 :: int] = [1, 2, 3, 4, 5]"
    by (simp add: upto_rec1)
  have name: "metadata_name ?pod = ''job''"
    by (simp add: create_pod_spec_def)
  have d1: "name_filter (client ?dm) ''web'' ''web''"
    by (simp add: DockerManager_init_def idle_engine_def)
  have d2: "fst (start_container ''nginx:1'' ''/bin/bash'' ''web'' None ?dm) = Inr ?created"
    by (simp add: docker_sim_defs)
  have d3: "fst (start_container ''nginx:1'' ''/bin/bash'' ''web'' None
      (statuses_changed (\<lambda>c. ''exited'')
         (snd (start_container ''nginx:1'' ''/bin/bash'' ''web'' None ?dm)))) = Inr ?exited"
    by (simp add: docker_sim_defs statuses_changed_def)
  have k1: "\<forall>i. api_faults (api_client ?km) i \<noteq> Some (ApiException 404)"
    by (simp add: KubernetesManager_init_def idle_api_def)
  have k2: "fst (start_pod ''job'' ''python:3'' ''sleep infinity'' None None None 5 1200 0
         [Event (Some ''Running'') 1] ?km) = Inr ?pod"
    by (simp add: k8s_sim_defs up name)
  from second_start_reuses_target [where dm = ?dm and name = "''web''" and img = "''nginx:1''"
      and command = "''/bin/bash''" and environment = None and handle = ?created
      and status_now = "\<lambda>c. ''exited''"
      and command' = "''/bin/bash''" and environment' = None] d1 d2
  have "\<forall>c2. fst (start_container ''nginx:1'' ''/bin/bash'' ''web'' None
         (statuses_changed (\<lambda>c. ''exited'')
            (snd (start_container ''nginx:1'' ''/bin/bash'' ''web'' None ?dm)))) = Inr c2 \<longrightarrow>
      new_engine_calls
        (statuses_changed (\<lambda>c. ''exited'')
           (snd (start_container ''nginx:1'' ''/bin/bash'' ''web'' None ?dm)))
        (snd (start_container ''nginx:1'' ''/bin/bash'' ''web'' None
           (statuses_changed (\<lambda>c. ''exited'')
              (snd (start_container ''nginx:1'' ''/bin/bash'' ''web'' None ?dm)))))
      = ContainersList ''web''
        # (if c_status c2 \<noteq> ''running'' then [ContainerStart (c_id c2)] else [])"
    unfolding Let_def by blast
  with d3 have a: "new_engine_calls
        (statuses_changed (\<lambda>c. ''exited'')
           (snd (start_container ''nginx:1'' ''/bin/bash'' ''web'' None ?dm)))
        (snd (start_container ''nginx:1'' ''/bin/bash'' ''web'' None
           (statuses_changed (\<lambda>c. ''exited'')
              (snd (start_container ''nginx:1'' ''/bin/bash'' ''web'' None ?dm)))))
      = [ContainersList ''web'', ContainerStart 1]"
    by simp
  from second_start_reuses_target [where km = ?km and name = "''job''" and img = "''python:3''"
      and command = "''sleep infinity''" and environment = None and resources = None
      and node_selector = None and max_retries = 5 and timeout = 1200 and start_time = 0
      and events = "[Event (Some ''Running'') 1]" and pod = ?pod
      and command' = "''sleep infinity''" and environment' = None and resources' = None
      and node_selector' = None and max_retries' = 5 and timeout' = 1200 and start_time' = 0
      and events' = "[Event (Some ''Running'') 1]"] k1 k2
  have b: "filter is_create (new_api_calls
      (snd (start_pod ''job'' ''python:3'' ''sleep infinity'' None None None 5 1200 0
         [Event (Some ''Running'') 1] ?km))
      (snd (start_pod ''job'' ''python:3'' ''sleep infinity'' None None None 5 1200 0
         [Event (Some ''Running'') 1]
         (snd (start_pod ''job'' ''python:3'' ''sleep infinity'' None None None 5 1200 0
            [Event (Some ''Running'') 1] ?km))))) = []"
    unfolding Let_def by blast
  from a b show ?thesis by blast
qed

text \<open>
  The claim as stated, at most one creation call over two starts for every name and
  image, fails in two ways. On the local backend, when the first start raises, nothing
  was created and the second start creates again: here the engine fails the first
  \<^verbatim>\<open>containers.run\<close> (the image cannot be pulled) and serves the second. On the cluster
  backend a start that returns a handle may have repeated the creation call: here the
  API server answers the first creation call with status 409 and serves the next.
\<close>

definition failing_pull_engine :: docker_engine where
  "failing_pull_engine =
     idle_engine\<lparr>engine_faults :=
       (\<lambda>i. if i = 1 then Some (OtherException ''ImageNotFound()'') else None)\<rparr>"

definition conflict_once_api :: k8s_api where
  "conflict_once_api = idle_api (\<lambda>i. if i = 1 then Some (ApiException 409) else None)"

theorem two_creation_calls_counterexample:
  "fst (start_container ''nginx:1'' ''/bin/bash'' ''web'' None (DockerManager_init failing_pull_engine))
     = Inl (OtherException ''ImageNotFound()'')
   \<and> new_engine_calls (DockerManager_init failing_pull_engine)
        (snd (start_container ''nginx:1'' ''/bin/bash'' ''web'' None
           (snd (start_container ''nginx:1'' ''/bin/bash'' ''web'' None
              (DockerManager_init failing_pull_engine)))))
     = [ContainersList ''web'',
        ContainersRun ''nginx:1'' ''/bin/bash'' ''web'' [(''PATH'', DEFAULT_DOCKER_PATH)],
        ContainersList ''web'',
        ContainersRun ''nginx:1'' ''/bin/bash'' ''web'' [(''PATH'', DEFAULT_DOCKER_PATH)]]
   \<and> length (filter is_run (new_engine_calls (DockerManager_init failing_pull_engine)
        (snd (start_container ''nginx:1'' ''/bin/bash'' ''web'' None
           (snd (start_container ''nginx:1'' ''/bin/bash'' ''web'' None
              (DockerManager_init failing_pull_engine))))))) = 2
   \<and> fst (start_pod ''job'' ''python:3'' ''sleep infinity'' None None None 5 1200 0
          [Event (Some ''Running'') 1]
          (KubernetesManager_init ''default'' None True conflict_once_api))
     = Inr (create_pod_spec ''job'' ''python:3'' ''sleep infinity'' None None None)
   \<and> length (filter is_create (new_api_calls
        (KubernetesManager_init ''default'' None True conflict_once_api)
        (snd (start_pod ''job'' ''python:3'' ''sleep infinity'' None None None 5 1200 0
           [Event (Some ''Running'') 1]
           (snd (start_pod ''job'' ''python:3'' ''sleep infinity'' None None None 5 1200 0
              [Event (Some ''Running'') 1]
              (KubernetesManager_init ''default'' None True conflict_once_api))))))) = 2"
proof -
  have up: "[1 .. 5 :: int] = [1, 2, 3, 4, 5]"
    by (simp add: upto_rec1)
  have name: "metadata_name (create_pod_spec ''job'' ''python:3'' ''sleep infinity'' None None None) = ''job''"
    by (simp add: create_pod_spec_def)
  have local: "fst (start_container ''nginx:1'' ''/bin/bash'' ''web'' None
          (DockerManager_init failing_pull_engine))
        = Inl (OtherException ''ImageNotFound()'')"
    "new_engine_calls (DockerManager_init failing_pull_engine)
        (snd (start_container ''nginx:1'' ''/bin/bash'' ''web'' None
           (snd (start_container ''nginx:1'' ''/bin/bash'' ''web'' None
              (DockerManager_init failing_pull_engine)))))
     = [ContainersList ''web'',
        ContainersRun ''nginx:1'' ''/bin/bash'' ''web'' [(''PATH'', DEFAULT_DOCKER_PATH)],
        ContainersList ''web'',
        ContainersRun ''nginx:1'' ''/bin/bash'' ''web'' [(''PATH'', DEFAULT_DOCKER_PATH)]]"
    by (simp_all add: docker_sim_defs failing_pull_engine_def)
  have cluster: "fst (start_pod ''job'' ''python:3'' ''sleep infinity'' None None None 5 1200 0
          [Event (Some ''Running'') 1]
          (KubernetesManager_init ''default'' None True conflict_once_api))
     = Inr (create_pod_spec ''job'' ''python:3'' ''sleep infinity'' None None None)"
    "length (filter is_create (new_api_calls
        (KubernetesManager_init ''default'' None True conflict_once_api)
        (snd (start_pod ''job'' ''python:3'' ''sleep infinity'' None None None 5 1200 0
           [Event (Some ''Running'') 1]
           (snd (start_pod ''job'' ''python:3'' ''sleep infinity'' None None None 5 1200 0
              [Event (Some ''Running'') 1]
              (KubernetesManager_init ''default'' None True conflict_once_api))))))) = 2"
    by (simp_all add: k8s_sim_defs conflict_once_api_def up name)
  from local cluster show ?thesis
    by simp
qed

end
